theory Spec2Isabelle
  imports Main "HOL-Library.AList" "HOL-Library.Multiset"
begin

section \<open>Python values used by the translator\<close>

text \<open>
  A Python syntax tree node: its identity (the object) and the nodes that
  \<^verbatim>\<open>ast.iter_child_nodes\<close> yields for it, in field order. The attribute
  \<^verbatim>\<open>parent\<close> that \<^verbatim>\<open>add_parent_refs\<close> writes is not one of the node's
  \<^verbatim>\<open>_fields\<close>; it lives in the store \<open>parent\<close> below.
\<close>

datatype ast = Node (node_id: nat) (child_nodes: "ast list")

type_synonym source_text = "string list \<times> int"

text \<open>Modelled from the spec: the style discriminator of an entity (section 3).\<close>

datatype PyKokkosStyles = workload | function_group

record PyKokkosEntity =
  style :: PyKokkosStyles
  name :: string
  AST :: ast
  source :: source_text
  path :: string
  entity_pk_import :: string

text \<open>
  Modelled from the spec: the target IR (section 3): a method declaration is a
  signature and a body, a record declaration has fields, nested records, methods
  and the flag that tells a full definition from a forward declaration.
\<close>

record MethodDecl =
  method_name :: string
  return_type :: string
  params :: "(string \<times> string) list"
  body :: "string list"

datatype RecordDecl =
  RecordDecl (record_name: string) (record_fields: "(string \<times> string) list")
    (nested_records: "RecordDecl list") (methods: "MethodDecl list") (is_definition: bool)

text \<open>Modelled from the spec: the symbol tables built by the member extractor (section 3).\<close>

record PyKokkosMembers =
  pk_mains :: "(string \<times> ast) list"
  pk_workunits :: "(string \<times> ast) list"
  pk_functions :: "(string \<times> ast) list"
  views :: "(string \<times> string) list"
  fields_tab :: "(string \<times> string) list"
  classtype_methods :: "(string \<times> MethodDecl list) list"

datatype exn = Exception string | AttributeError string

text \<open>
  How a call ends: it returns, it raises an exception that nothing in the
  translator catches, or it raises \<^verbatim>\<open>SystemExit\<close> through \<^verbatim>\<open>sys.exit\<close>
  (\<open>None\<close> for the call without an argument).
\<close>

datatype 'a outcome = Returned 'a | Raised exn | SystemExit "int option"

text \<open>
  The status of the process when the outcome reaches the top of the
  interpreter: \<^verbatim>\<open>SystemExit(None)\<close> is status 0, \<^verbatim>\<open>SystemExit(n)\<close> is
  status \<open>n\<close>, an uncaught exception is status 1.
\<close>

fun exit_status :: "'a outcome \<Rightarrow> int" where
  "exit_status (Returned _) = 0"
| "exit_status (Raised _) = 1"
| "exit_status (SystemExit None) = 0"
| "exit_status (SystemExit (Some n)) = n"

section \<open>What the translator leaves behind: parents, calls, printed lines\<close>

datatype step =
  LinkParents | ExtractMembers | ValidateSymbols | TranslateClasstypes
  | TranslateFunctions | TranslateWorkunits | AssembleFunctor | GenerateBindings
  | Serialize

text \<open>
  \<open>Enter s\<close> marks the statement of \<^verbatim>\<open>translate\<close> that starts step \<open>s\<close>;
  the other events are the calls of the symbol validator and of the three
  visitors, with the node they are given.
\<close>

datatype event =
  Enter step
  | CheckSymbols ast
  | VisitClasstype ast
  | VisitFunction ast
  | VisitWorkunit string ast

record world =
  parent :: "nat \<rightharpoonup> nat"
  trace :: "event list"
  stdout :: "string list"

definition log :: "event \<Rightarrow> world \<Rightarrow> world" where
  "log e w = w\<lparr>trace := trace w @ [e]\<rparr>"

definition print :: "string \<Rightarrow> world \<Rightarrow> world" where
  "print s w = w\<lparr>stdout := stdout w @ [s]\<rparr>"

section \<open>The collaborators of the translator\<close>

type_synonym visitor_args =
  "source_text \<times> (string \<times> string) list \<times> (string \<times> ast) list \<times> (string \<times> string) list
    \<times> (string \<times> ast) list \<times> (string \<times> MethodDecl list) list \<times> string"

text \<open>
  The code behind these names is outside the translator's file, so each is a
  parameter, with the contract the spec gives it (sections 4.2 to 4.6): the
  member extractor returns the symbol tables, the validator returns its
  diagnostics and does not raise, a visitor's \<^verbatim>\<open>visit\<close> returns an IR node or
  raises (\<open>Inl\<close>), the functor assembler returns a record declaration, the
  binding generators and the serializer return text. Every one that walks a
  syntax tree is given the store of parent references, which
  \<^verbatim>\<open>add_parent_refs\<close> has filled by then. \<open>repr\<close> is the text that an
  f-string puts for a syntax tree node.
\<close>

record collaborators =
  members_extract :: "(nat \<rightharpoonup> nat) \<Rightarrow> PyKokkosEntity \<Rightarrow> PyKokkosEntity list \<Rightarrow> PyKokkosMembers"
  symbols_pass :: "PyKokkosMembers \<Rightarrow> string \<Rightarrow> string \<Rightarrow> (nat \<rightharpoonup> nat) \<Rightarrow> ast \<Rightarrow> string list"
  classtype_visitor :: "visitor_args \<Rightarrow> (nat \<rightharpoonup> nat) \<Rightarrow> ast \<Rightarrow> exn + RecordDecl"
  function_visitor :: "visitor_args \<Rightarrow> (nat \<rightharpoonup> nat) \<Rightarrow> ast \<Rightarrow> exn + MethodDecl"
  workunit_visitor :: "visitor_args \<Rightarrow> (nat \<rightharpoonup> nat) \<Rightarrow> ast \<Rightarrow> exn + (string \<times> MethodDecl)"
  generate_functor :: "string \<Rightarrow> PyKokkosMembers \<Rightarrow> (string \<times> string \<times> MethodDecl) list
    \<Rightarrow> MethodDecl list \<Rightarrow> RecordDecl"
  bind_main :: "string \<Rightarrow> PyKokkosMembers \<Rightarrow> source_text \<Rightarrow> string \<Rightarrow> string \<Rightarrow> string list"
  bind_workunits :: "string \<Rightarrow> PyKokkosMembers \<Rightarrow> (string \<times> string \<times> MethodDecl) list
    \<Rightarrow> string \<Rightarrow> string list"
  serialize :: "RecordDecl \<Rightarrow> string"
  repr :: "ast \<Rightarrow> string"

section \<open>StaticTranslator\<close>

text \<open>
  The constructor stores the two file names; \<^verbatim>\<open>pk_import\<close> and
  \<^verbatim>\<open>pk_members\<close> are only annotated there, so they are unset (\<open>None\<close>) until
  \<^verbatim>\<open>translate\<close> assigns them.
\<close>

record StaticTranslator =
  pk_import :: "string option"
  pk_members :: "PyKokkosMembers option"
  module_file :: string
  functor_file :: string

definition init :: "string \<Rightarrow> string \<Rightarrow> StaticTranslator" where
  "init module functor_name =
     \<lparr>pk_import = None, pk_members = None, module_file = module, functor_file = functor_name\<rparr>"

subsection \<open>add_parent_refs\<close>

text \<open>
  \<^verbatim>\<open>ast.walk\<close>: a queue that starts with the root; the first node is taken, its
  children are put at the end of the queue, and the node is yielded.
\<close>

function walk :: "ast list \<Rightarrow> ast list" where
  "walk [] = []"
| "walk (n # todo) = n # walk (todo @ child_nodes n)"
  by pat_completeness auto
termination
proof (relation "measure (\<lambda>q. sum_list (map size q))")
  show "wf (measure (\<lambda>q. sum_list (map size q)))" by simp
next
  fix n :: ast and todo :: "ast list"
  have "sum_list (map size (child_nodes n)) < size n"
    by (cases n) (simp add: size_list_conv_sum_list)
  then show "(todo @ child_nodes n, n # todo) \<in> measure (\<lambda>q. sum_list (map size q))"
    by simp
qed

text \<open>The inner loop: \<^verbatim>\<open>child.parent = node\<close> for each child of one node.\<close>

definition set_parents :: "ast \<Rightarrow> (nat \<rightharpoonup> nat) \<Rightarrow> (nat \<rightharpoonup> nat)" where
  "set_parents node p =
     fold (\<lambda>child p. p(node_id child \<mapsto> node_id node)) (child_nodes node) p"

definition add_parent_refs :: "ast \<Rightarrow> (nat \<rightharpoonup> nat) \<Rightarrow> (nat \<rightharpoonup> nat)" where
  "add_parent_refs classdef p = fold set_parents (walk [classdef]) p"

subsection \<open>check_symbols\<close>

text \<open>
  One \<^verbatim>\<open>for\<close> loop of \<^verbatim>\<open>check_symbols\<close>: each node is given to the
  validator and what it returns is added to \<^verbatim>\<open>error_messages\<close>. The method
  runs four of them, over the values of \<^verbatim>\<open>pk_mains\<close>, \<^verbatim>\<open>pk_workunits\<close> and
  \<^verbatim>\<open>pk_functions\<close> and over the trees of the classtypes; if the list is not
  empty by then it prints every message and calls \<^verbatim>\<open>sys.exit()\<close>.
\<close>

fun check_loop ::
  "(ast \<Rightarrow> string list) \<Rightarrow> ast list \<Rightarrow> string list \<Rightarrow> world \<Rightarrow> string list \<times> world" where
  "check_loop sp [] error_messages w = (error_messages, w)"
| "check_loop sp (a # as) error_messages w =
     check_loop sp as (error_messages @ sp a) (log (CheckSymbols a) w)"

definition check_symbols ::
  "collaborators \<Rightarrow> StaticTranslator \<Rightarrow> PyKokkosEntity list \<Rightarrow> string \<Rightarrow> world
    \<Rightarrow> unit outcome \<times> world" where
  "check_symbols C self classtypes path' w =
     (case pk_members self of
        None \<Rightarrow> (Raised (AttributeError ''pk_members''), w)
      | Some m \<Rightarrow>
     (case pk_import self of
        None \<Rightarrow> (Raised (AttributeError ''pk_import''), w)
      | Some imp \<Rightarrow>
        let sp = symbols_pass C m imp path' (parent w);
            (e1, w1) = check_loop sp (map snd (pk_mains m)) [] w;
            (e2, w2) = check_loop sp (map snd (pk_workunits m)) e1 w1;
            (e3, w3) = check_loop sp (map snd (pk_functions m)) e2 w2;
            (e4, w4) = check_loop sp (map AST classtypes) e3 w3
        in if e4 \<noteq> [] then (SystemExit None, fold print e4 w4)
           else (Returned (), w4)))"

subsection \<open>The three translation loops\<close>

text \<open>
  The visitors are built from the source text, five of the symbol tables and
  the import alias.
\<close>

definition make_visitor_args :: "PyKokkosMembers \<Rightarrow> string \<Rightarrow> source_text \<Rightarrow> visitor_args" where
  "make_visitor_args m imp src =
     (src, views m, pk_workunits m, fields_tab m, pk_functions m, classtype_methods m, imp)"


text \<open>
  The loop of \<^verbatim>\<open>translate_classtypes\<close>. A visitor is made for each classtype;
  an exception of its \<^verbatim>\<open>visit\<close> is not caught. The declaration is
  \<^verbatim>\<open>copy.deepcopy(definition)\<close> with \<^verbatim>\<open>is_definition\<close> set to False: on
  values a deep copy is the value itself, and what the copy means for the
  identity of the objects is the subject of the object store further below.
\<close>

definition set_is_definition :: "bool \<Rightarrow> RecordDecl \<Rightarrow> RecordDecl" where
  "set_is_definition b r =
     RecordDecl (record_name r) (record_fields r) (nested_records r) (methods r) b"

fun classtypes_loop ::
  "collaborators \<Rightarrow> PyKokkosMembers \<Rightarrow> string \<Rightarrow> PyKokkosEntity list \<Rightarrow> RecordDecl list
    \<Rightarrow> RecordDecl list \<Rightarrow> world \<Rightarrow> RecordDecl list outcome \<times> world" where
  "classtypes_loop C m imp [] declarations definitions w =
     (Returned (declarations @ definitions), w)"
| "classtypes_loop C m imp (c # cs) declarations definitions w =
     (let w' = log (VisitClasstype (AST c)) w in
      case classtype_visitor C (make_visitor_args m imp (source c)) (parent w) (AST c) of
        Inl e \<Rightarrow> (Raised e, w')
      | Inr definition \<Rightarrow>
          let declaration = set_is_definition False definition
          in classtypes_loop C m imp cs (declarations @ [declaration])
               (definitions @ [definition]) w')"

definition translate_classtypes ::
  "collaborators \<Rightarrow> StaticTranslator \<Rightarrow> PyKokkosEntity list \<Rightarrow> world
    \<Rightarrow> RecordDecl list outcome \<times> world" where
  "translate_classtypes C self classtypes w =
     (case pk_members self of
        None \<Rightarrow> (if classtypes = [] then (Returned [], w)
                 else (Raised (AttributeError ''pk_members''), w))
      | Some m \<Rightarrow>
     (case pk_import self of
        None \<Rightarrow> (if classtypes = [] then (Returned [], w)
                 else (Raised (AttributeError ''pk_import''), w))
      | Some imp \<Rightarrow> classtypes_loop C m imp classtypes [] [] w))"

text \<open>
  The loop of \<^verbatim>\<open>translate_functions\<close>: one visitor for all functions, no
  exception caught.
\<close>

fun functions_loop ::
  "(ast \<Rightarrow> exn + MethodDecl) \<Rightarrow> ast list \<Rightarrow> MethodDecl list \<Rightarrow> world
    \<Rightarrow> MethodDecl list outcome \<times> world" where
  "functions_loop visit [] translation w = (Returned translation, w)"
| "functions_loop visit (f # fs) translation w =
     (let w' = log (VisitFunction f) w in
      case visit f of
        Inl e \<Rightarrow> (Raised e, w')
      | Inr t \<Rightarrow> functions_loop visit fs (translation @ [t]) w')"

definition translate_functions ::
  "collaborators \<Rightarrow> StaticTranslator \<Rightarrow> source_text \<Rightarrow> world
    \<Rightarrow> MethodDecl list outcome \<times> world" where
  "translate_functions C self src w =
     (case pk_members self of
        None \<Rightarrow> (Raised (AttributeError ''pk_members''), w)
      | Some m \<Rightarrow>
     (case pk_import self of
        None \<Rightarrow> (Raised (AttributeError ''pk_import''), w)
      | Some imp \<Rightarrow>
          functions_loop (function_visitor C (make_visitor_args m imp src) (parent w))
            (map snd (pk_functions m)) [] w))"

text \<open>
  The loop of \<^verbatim>\<open>translate_workunits\<close>: the bare \<^verbatim>\<open>except\<close> catches whatever
  the visitor raises, prints one line and calls \<^verbatim>\<open>sys.exit(1)\<close>.
\<close>

fun workunits_loop ::
  "collaborators \<Rightarrow> (ast \<Rightarrow> exn + (string \<times> MethodDecl)) \<Rightarrow> (string \<times> ast) list
    \<Rightarrow> (string \<times> string \<times> MethodDecl) list \<Rightarrow> world
    \<Rightarrow> (string \<times> string \<times> MethodDecl) list outcome \<times> world" where
  "workunits_loop C visit [] workunits w = (Returned workunits, w)"
| "workunits_loop C visit ((n, wu) # rest) workunits w =
     (let w' = log (VisitWorkunit n wu) w in
      case visit wu of
        Inl e \<Rightarrow> (SystemExit (Some 1), print (''Translation of '' @ repr C wu @ '' failed'') w')
      | Inr t \<Rightarrow> workunits_loop C visit rest (AList.update n t workunits) w')"

definition translate_workunits ::
  "collaborators \<Rightarrow> StaticTranslator \<Rightarrow> source_text \<Rightarrow> world
    \<Rightarrow> (string \<times> string \<times> MethodDecl) list outcome \<times> world" where
  "translate_workunits C self src w =
     (case pk_members self of
        None \<Rightarrow> (Raised (AttributeError ''pk_members''), w)
      | Some m \<Rightarrow>
     (case pk_import self of
        None \<Rightarrow> (Raised (AttributeError ''pk_import''), w)
      | Some imp \<Rightarrow>
          workunits_loop C (workunit_visitor C (make_visitor_args m imp src) (parent w))
            (pk_workunits m) [] w))"

subsection \<open>The generated text\<close>

definition generate_header :: string where
  "generate_header = ''// ******* AUTOMATICALLY GENERATED BY PyKokkos *******''"

definition include_headers :: "StaticTranslator \<Rightarrow> string list" where
  "include_headers self =
     [''pybind11/pybind11.h'', ''Kokkos_Core.hpp'', ''Kokkos_Sort.hpp'',
      ''fstream'', ''iostream'', ''cmath'', functor_file self]"

definition generate_includes :: "StaticTranslator \<Rightarrow> string" where
  "generate_includes self =
     concat (map (\<lambda>h. ''#include <'' @ h @ ''>'' @ [CHR 0x0A]) (include_headers self))"

definition generate_bindings ::
  "collaborators \<Rightarrow> StaticTranslator \<Rightarrow> PyKokkosEntity \<Rightarrow> string \<Rightarrow> source_text
    \<Rightarrow> (string \<times> string \<times> MethodDecl) list \<Rightarrow> string list outcome" where
  "generate_bindings C self entity functor_name src workunits =
     (case pk_members self of
        None \<Rightarrow> Raised (AttributeError ''pk_members'')
      | Some m \<Rightarrow>
          if style entity = workload then
            (case pk_import self of
               None \<Rightarrow> Raised (AttributeError ''pk_import'')
             | Some imp \<Rightarrow> Returned (bind_main C functor_name m src imp (module_file self)))
          else Returned (bind_workunits C functor_name m workunits (module_file self)))"

subsection \<open>translate\<close>

text \<open>
  The first statements of \<^verbatim>\<open>translate\<close>: the parents of the entity's tree,
  then those of each classtype's tree.
\<close>

definition linked_parents ::
  "PyKokkosEntity \<Rightarrow> PyKokkosEntity list \<Rightarrow> (nat \<rightharpoonup> nat) \<Rightarrow> (nat \<rightharpoonup> nat)" where
  "linked_parents entity classtypes p =
     fold (\<lambda>c p. add_parent_refs (AST c) p) classtypes (add_parent_refs (AST entity) p)"

definition link_parents :: "PyKokkosEntity \<Rightarrow> PyKokkosEntity list \<Rightarrow> world \<Rightarrow> world" where
  "link_parents entity classtypes w = w\<lparr>parent := linked_parents entity classtypes (parent w)\<rparr>"

text \<open>
  The statements of \<^verbatim>\<open>translate\<close> after the workunits are translated: the
  functor struct, the bindings, the serialized functor text, and the include
  block and the header put in front of the bindings.
\<close>

definition assemble ::
  "collaborators \<Rightarrow> StaticTranslator \<Rightarrow> PyKokkosEntity \<Rightarrow> RecordDecl list \<Rightarrow> MethodDecl list
    \<Rightarrow> (string \<times> string \<times> MethodDecl) list \<Rightarrow> world
    \<Rightarrow> (string list \<times> string list) outcome \<times> world" where
  "assemble C self entity classtypes functions workunits w =
     (case pk_members self of
        None \<Rightarrow> (Raised (AttributeError ''pk_members''), w)
      | Some m \<Rightarrow>
        let functor_name = ''pk_functor_'' @ name entity;
            w1 = log (Enter AssembleFunctor) w;
            struct = generate_functor C functor_name m workunits functions;
            w2 = log (Enter GenerateBindings) w1
        in (case generate_bindings C self entity functor_name (source entity) workunits of
              Raised e \<Rightarrow> (Raised e, w2)
            | SystemExit n \<Rightarrow> (SystemExit n, w2)
            | Returned bindings \<Rightarrow>
                (let w3 = log (Enter Serialize) w2;
                     functor_text = [generate_header] @ map (serialize C) classtypes
                               @ [serialize C struct];
                     bindings1 = generate_includes self # bindings;
                     bindings2 = generate_header # bindings1
                 in (Returned (functor_text, bindings2), w3))))"

text \<open>
  \<^verbatim>\<open>translate\<close>. It assigns \<^verbatim>\<open>pk_import\<close>, links the parents, assigns
  \<^verbatim>\<open>pk_members\<close> the tables extracted from the entity and the classtypes,
  and then calls the methods above in order; an exit or an exception of one of
  them ends it there.
\<close>

definition translate ::
  "collaborators \<Rightarrow> StaticTranslator \<Rightarrow> PyKokkosEntity \<Rightarrow> PyKokkosEntity list \<Rightarrow> world
    \<Rightarrow> (string list \<times> string list) outcome \<times> StaticTranslator \<times> world" where
  "translate C self0 entity classtypes w0 =
     (let self1 = self0\<lparr>pk_import := Some (entity_pk_import entity)\<rparr>;
          w1 = link_parents entity classtypes (log (Enter LinkParents) w0);
          w2 = log (Enter ExtractMembers) w1;
          self = self1\<lparr>pk_members := Some (members_extract C (parent w2) entity classtypes)\<rparr>
      in case check_symbols C self classtypes (path entity) (log (Enter ValidateSymbols) w2) of
           (Raised e, w3) \<Rightarrow> (Raised e, self, w3)
         | (SystemExit n, w3) \<Rightarrow> (SystemExit n, self, w3)
         | (Returned _, w3) \<Rightarrow>
      (case translate_classtypes C self classtypes (log (Enter TranslateClasstypes) w3) of
           (Raised e, w4) \<Rightarrow> (Raised e, self, w4)
         | (SystemExit n, w4) \<Rightarrow> (SystemExit n, self, w4)
         | (Returned cts, w4) \<Rightarrow>
      (case translate_functions C self (source entity) (log (Enter TranslateFunctions) w4) of
           (Raised e, w5) \<Rightarrow> (Raised e, self, w5)
         | (SystemExit n, w5) \<Rightarrow> (SystemExit n, self, w5)
         | (Returned functions, w5) \<Rightarrow>
      (case translate_workunits C self (source entity) (log (Enter TranslateWorkunits) w5) of
           (Raised e, w6) \<Rightarrow> (Raised e, self, w6)
         | (SystemExit n, w6) \<Rightarrow> (SystemExit n, self, w6)
         | (Returned workunits, w6) \<Rightarrow>
             (case assemble C self entity cts functions workunits w6 of
                (r, w7) \<Rightarrow> (r, self, w7))))))"

section \<open>The objects behind the target IR\<close>

text \<open>
  \<^verbatim>\<open>translate_classtypes\<close> makes the forward declaration with
  \<^verbatim>\<open>copy.deepcopy(definition)\<close> and then assigns \<^verbatim>\<open>is_definition\<close> on the copy.
  Whether that assignment can reach the definition is a question about object
  identity, so here the IR nodes are objects in a store: an address is an index
  into the list of objects, an attribute holds an atom (a string, number, bool,
  None or enum member, which \<^verbatim>\<open>deepcopy\<close> returns as it is) or a reference, and
  a Python list is an object of its own.
\<close>

datatype atom = ABool bool | AStr string | AInt int | ANone

datatype val = Atom atom | Ref nat

datatype obj = Instance string "(string \<times> val) list" | PyList "val list"

type_synonym heap = "obj list"

type_synonym memo = "nat \<rightharpoonup> nat"

text \<open>The values an object holds, an object with other values in their place, and the
  empty object of the same kind that \<^verbatim>\<open>deepcopy\<close> creates before it fills it.\<close>

fun slots :: "obj \<Rightarrow> val list" where
  "slots (Instance c as) = map snd as"
| "slots (PyList xs) = xs"

fun with_slots :: "obj \<Rightarrow> val list \<Rightarrow> obj" where
  "with_slots (Instance c as) ys = Instance c (zip (map fst as) ys)"
| "with_slots (PyList xs) ys = PyList ys"

fun blank :: "obj \<Rightarrow> obj" where
  "blank (Instance c as) = Instance c []"
| "blank (PyList xs) = PyList []"

text \<open>
  \<^verbatim>\<open>copy.deepcopy(x, memo)\<close>. An atom is returned as it is. For an object, the
  memo is asked first; otherwise a new empty object is created and entered in the
  memo under the original's identity, the values of the original are copied in
  order with the same memo, and the new object is filled with the copies: the
  order of \<^verbatim>\<open>_deepcopy_list\<close> and \<^verbatim>\<open>_reconstruct\<close>. The memo is what makes a
  shared or cyclic structure come out with the same shape. \<open>fuel\<close> bounds the
  depth of the recursion, as the interpreter's recursion limit does; \<open>None\<close>
  is the \<^verbatim>\<open>RecursionError\<close> (or a reference to no object, which a Python
  store never holds).
\<close>

fun deepcopy :: "nat \<Rightarrow> val \<Rightarrow> heap \<times> memo \<Rightarrow> (val \<times> heap \<times> memo) option"
  and deepcopy_vals :: "nat \<Rightarrow> val list \<Rightarrow> heap \<times> memo \<Rightarrow> (val list \<times> heap \<times> memo) option"
  where
  "deepcopy fuel (Atom x) (h, memo) = Some (Atom x, h, memo)"
| "deepcopy 0 (Ref a) (h, memo) = None"
| "deepcopy (Suc fuel) (Ref a) (h, memo) =
     (case memo a of
        Some y \<Rightarrow> Some (Ref y, h, memo)
      | None \<Rightarrow>
          if length h \<le> a then None
          else (case deepcopy_vals fuel (slots (h ! a))
                       (h @ [blank (h ! a)], memo(a \<mapsto> length h)) of
                  None \<Rightarrow> None
                | Some (ys, h2, memo2) \<Rightarrow>
                    Some (Ref (length h), h2[length h := with_slots (h ! a) ys], memo2)))"
| "deepcopy_vals fuel [] (h, memo) = Some ([], h, memo)"
| "deepcopy_vals fuel (v # vs) (h, memo) =
     (case deepcopy fuel v (h, memo) of
        None \<Rightarrow> None
      | Some (v', h1, memo1) \<Rightarrow>
          (case deepcopy_vals fuel vs (h1, memo1) of
             None \<Rightarrow> None
           | Some (vs', h2, memo2) \<Rightarrow> Some (v' # vs', h2, memo2)))"

text \<open>Reading and assigning an attribute; a list has none to assign.\<close>

fun getattr :: "heap \<Rightarrow> nat \<Rightarrow> string \<Rightarrow> val option" where
  "getattr h a k =
     (if length h \<le> a then None
      else (case h ! a of Instance c as \<Rightarrow> map_of as k | PyList xs \<Rightarrow> None))"

fun setattr :: "heap \<Rightarrow> nat \<Rightarrow> string \<Rightarrow> val \<Rightarrow> heap option" where
  "setattr h a k v =
     (if length h \<le> a then None
      else (case h ! a of
              Instance c as \<Rightarrow> Some (h[a := Instance c (AList.update k v as)])
            | PyList xs \<Rightarrow> None))"

text \<open>
  The two statements of the loop body of \<^verbatim>\<open>translate_classtypes\<close>:
  \<^verbatim>\<open>declaration = copy.deepcopy(definition)\<close> and
  \<^verbatim>\<open>declaration.is_definition = False\<close>.
\<close>

definition make_declaration :: "nat \<Rightarrow> heap \<Rightarrow> nat \<Rightarrow> (nat \<times> heap) option" where
  "make_declaration fuel h definition =
     (case deepcopy fuel (Ref definition) (h, Map.empty) of
        Some (Ref declaration, h1, memo) \<Rightarrow>
          (case setattr h1 declaration ''is_definition'' (Atom (ABool False)) of
             Some h2 \<Rightarrow> Some (declaration, h2)
           | None \<Rightarrow> None)
      | _ \<Rightarrow> None)"

text \<open>
  A store is closed when every reference in it leads to an object of it;
  \<open>reach h a b\<close> when \<open>b\<close> is \<open>a\<close> or is found from \<open>a\<close> by following
  references: the nodes of the tree under \<open>a\<close>.
\<close>

fun val_within :: "nat \<Rightarrow> nat \<Rightarrow> val \<Rightarrow> bool" where
  "val_within lo hi (Atom x) = True"
| "val_within lo hi (Ref a) = (lo \<le> a \<and> a < hi)"

definition closed :: "heap \<Rightarrow> bool" where
  "closed h = list_all (\<lambda>ob. list_all (val_within 0 (length h)) (slots ob)) h"

inductive reach :: "heap \<Rightarrow> nat \<Rightarrow> nat \<Rightarrow> bool" for h a where
  reach_self: "reach h a a"
| reach_step: "reach h a b \<Longrightarrow> b < length h \<Longrightarrow> Ref c \<in> set (slots (h ! b)) \<Longrightarrow> reach h a c"

text \<open>
  A copy of an object is the object with every reference replaced by the
  reference to the copy of what it referred to.
\<close>

fun rename :: "memo \<Rightarrow> val \<Rightarrow> val" where
  "rename m (Atom x) = Atom x"
| "rename m (Ref a) = (case m a of Some b \<Rightarrow> Ref b | None \<Rightarrow> Ref a)"

fun covered :: "memo \<Rightarrow> val \<Rightarrow> bool" where
  "covered m (Atom x) = True"
| "covered m (Ref a) = (m a \<noteq> None)"

fun is_instance :: "obj \<Rightarrow> bool" where
  "is_instance (Instance c as) = True"
| "is_instance (PyList xs) = False"

fun with_attr :: "string \<Rightarrow> val \<Rightarrow> obj \<Rightarrow> obj" where
  "with_attr k v (Instance c as) = Instance c (AList.update k v as)"
| "with_attr k v (PyList xs) = PyList xs"

definition renamed :: "memo \<Rightarrow> obj \<Rightarrow> obj" where
  "renamed f ob = with_slots ob (map (rename f) (slots ob))"

text \<open>
  What holds while \<^verbatim>\<open>deepcopy\<close> runs on a store whose first \<open>n0\<close> objects are
  the originals: the memo leads to new objects only, new objects refer to new
  objects only, old objects are left as they are, and the entries of the memo
  that are finished are copies of their originals.
\<close>

definition memo_ok :: "nat \<Rightarrow> heap \<Rightarrow> memo \<Rightarrow> bool" where
  "memo_ok n0 h m = (\<forall>a b. m a = Some b \<longrightarrow> n0 \<le> b \<and> b < length h)"

definition fresh_region :: "nat \<Rightarrow> heap \<Rightarrow> bool" where
  "fresh_region n0 h =
     (\<forall>b. n0 \<le> b \<and> b < length h \<longrightarrow> list_all (val_within n0 (length h)) (slots (h ! b)))"

definition store_inv :: "nat \<Rightarrow> heap \<times> memo \<Rightarrow> bool" where
  "store_inv n0 s = (n0 \<le> length (fst s) \<and> memo_ok n0 (fst s) (snd s) \<and> fresh_region n0 (fst s))"

definition extends :: "heap \<Rightarrow> heap \<Rightarrow> bool" where
  "extends h h' = (length h \<le> length h' \<and> (\<forall>b < length h. h' ! b = h ! b))"

definition good :: "nat \<Rightarrow> heap \<times> memo \<Rightarrow> val \<times> heap \<times> memo \<Rightarrow> bool" where
  "good n0 s r =
     (extends (fst s) (fst (snd r)) \<and> snd s \<subseteq>\<^sub>m snd (snd r) \<and> store_inv n0 (snd r)
      \<and> val_within n0 (length (fst (snd r))) (fst r))"

definition goods :: "nat \<Rightarrow> heap \<times> memo \<Rightarrow> val list \<times> heap \<times> memo \<Rightarrow> bool" where
  "goods n0 s r =
     (extends (fst s) (fst (snd r)) \<and> snd s \<subseteq>\<^sub>m snd (snd r) \<and> store_inv n0 (snd r)
      \<and> list_all (val_within n0 (length (fst (snd r)))) (fst r))"

definition todo :: "nat \<Rightarrow> memo \<Rightarrow> nat" where
  "todo n0 m = card {a. a < n0 \<and> m a = None}"

definition originals :: "nat \<Rightarrow> heap \<Rightarrow> bool" where
  "originals n0 h =
     (n0 \<le> length h \<and> (\<forall>a < n0. list_all (val_within 0 n0) (slots (h ! a))))"

definition copied :: "heap \<Rightarrow> heap \<Rightarrow> memo \<Rightarrow> nat \<Rightarrow> bool" where
  "copied h0 h m a =
     (case m a of
        None \<Rightarrow> True
      | Some b \<Rightarrow> list_all (covered m) (slots (h0 ! a))
                 \<and> h ! b = with_slots (h0 ! a) (map (rename m) (slots (h0 ! a))))"

definition copy_pre :: "nat \<Rightarrow> heap \<Rightarrow> heap \<times> memo \<Rightarrow> bool" where
  "copy_pre n0 h0 s =
     (store_inv n0 s \<and> originals n0 (fst s) \<and> (\<forall>a < n0. fst s ! a = h0 ! a)
      \<and> inj_on (snd s) (dom (snd s)))"

definition copy_iso :: "heap \<Rightarrow> heap \<times> memo \<Rightarrow> heap \<times> memo \<Rightarrow> bool" where
  "copy_iso h0 s s' =
     ((\<forall>a. copied h0 (fst s) (snd s) a \<longrightarrow> copied h0 (fst s') (snd s') a)
      \<and> (\<forall>a b. snd s' a = Some b \<and> snd s a = None \<longrightarrow> length (fst s) \<le> b)
      \<and> inj_on (snd s') (dom (snd s')))"

text \<open>
  A definition to copy: a record with one method; the method refers back to the
  record that owns it, so the structure has a cycle.
\<close>

definition example_heap :: heap where
  "example_heap =
     [Instance ''RecordDecl''
        [(''name'', Atom (AStr ''Point'')), (''methods'', Ref 1), (''is_definition'', Atom (ABool True))],
      PyList [Ref 2],
      Instance ''MethodDecl'' [(''name'', Atom (AStr ''norm'')), (''body'', Ref 3), (''owner'', Ref 0)],
      PyList [Atom (AStr ''return x * x;'')]]"


definition example_copy :: heap where
  "example_copy =
     [Instance ''RecordDecl''
        [(''name'', Atom (AStr ''Point'')), (''methods'', Ref 1),
         (''is_definition'', Atom (ABool True))],
      PyList [Ref 2],
      Instance ''MethodDecl''
        [(''name'', Atom (AStr ''norm'')), (''body'', Ref 3), (''owner'', Ref 0)],
      PyList [Atom (AStr ''return x * x;'')],
      Instance ''RecordDecl''
        [(''name'', Atom (AStr ''Point'')), (''methods'', Ref 5),
         (''is_definition'', Atom (ABool False))],
      PyList [Ref 6],
      Instance ''MethodDecl''
        [(''name'', Atom (AStr ''norm'')), (''body'', Ref 7), (''owner'', Ref 4)],
      PyList [Atom (AStr ''return x * x;'')]]"

section \<open>The course of one compilation\<close>

text \<open>
  Names for what one call of \<^verbatim>\<open>translate\<close> works with: the symbol tables
  it extracts, the bodies it validates, the diagnostics of those bodies, and
  the three visitors as it builds them.
\<close>

definition compiled_members ::
  "collaborators \<Rightarrow> PyKokkosEntity \<Rightarrow> PyKokkosEntity list \<Rightarrow> (nat \<rightharpoonup> nat) \<Rightarrow> PyKokkosMembers" where
  "compiled_members C entity classtypes p =
     members_extract C (linked_parents entity classtypes p) entity classtypes"

definition bodies :: "PyKokkosMembers \<Rightarrow> PyKokkosEntity list \<Rightarrow> ast list" where
  "bodies m classtypes =
     map snd (pk_mains m) @ map snd (pk_workunits m) @ map snd (pk_functions m)
     @ map AST classtypes"

definition diagnostics ::
  "collaborators \<Rightarrow> PyKokkosEntity \<Rightarrow> PyKokkosEntity list \<Rightarrow> (nat \<rightharpoonup> nat) \<Rightarrow> string list" where
  "diagnostics C entity classtypes p =
     concat (map (symbols_pass C (compiled_members C entity classtypes p)
                    (entity_pk_import entity) (path entity)
                    (linked_parents entity classtypes p))
               (bodies (compiled_members C entity classtypes p) classtypes))"

definition classtype_visit ::
  "collaborators \<Rightarrow> PyKokkosEntity \<Rightarrow> PyKokkosEntity list \<Rightarrow> (nat \<rightharpoonup> nat) \<Rightarrow> PyKokkosEntity
    \<Rightarrow> exn + RecordDecl" where
  "classtype_visit C entity classtypes p c =
     classtype_visitor C
       (make_visitor_args (compiled_members C entity classtypes p) (entity_pk_import entity)
          (source c))
       (linked_parents entity classtypes p) (AST c)"

definition function_visit ::
  "collaborators \<Rightarrow> PyKokkosEntity \<Rightarrow> PyKokkosEntity list \<Rightarrow> (nat \<rightharpoonup> nat) \<Rightarrow> ast
    \<Rightarrow> exn + MethodDecl" where
  "function_visit C entity classtypes p =
     function_visitor C
       (make_visitor_args (compiled_members C entity classtypes p) (entity_pk_import entity)
          (source entity))
       (linked_parents entity classtypes p)"

definition workunit_visit ::
  "collaborators \<Rightarrow> PyKokkosEntity \<Rightarrow> PyKokkosEntity list \<Rightarrow> (nat \<rightharpoonup> nat) \<Rightarrow> ast
    \<Rightarrow> exn + (string \<times> MethodDecl)" where
  "workunit_visit C entity classtypes p =
     workunit_visitor C
       (make_visitor_args (compiled_members C entity classtypes p) (entity_pk_import entity)
          (source entity))
       (linked_parents entity classtypes p)"

text \<open>
  A loop over \<open>xs\<close> that stops at the first item whose visit raises: the
  exception it stops with, the items it reaches, the results it has by then.
\<close>

fun first_error :: "('a \<Rightarrow> exn + 'b) \<Rightarrow> 'a list \<Rightarrow> exn option" where
  "first_error f [] = None"
| "first_error f (x # xs) = (case f x of Inl e \<Rightarrow> Some e | Inr _ \<Rightarrow> first_error f xs)"

fun attempted :: "('a \<Rightarrow> exn + 'b) \<Rightarrow> 'a list \<Rightarrow> 'a list" where
  "attempted f [] = []"
| "attempted f (x # xs) = x # (case f x of Inl _ \<Rightarrow> [] | Inr _ \<Rightarrow> attempted f xs)"

fun successes :: "('a \<Rightarrow> exn + 'b) \<Rightarrow> 'a list \<Rightarrow> 'b list" where
  "successes f [] = []"
| "successes f (x # xs) = (case f x of Inl _ \<Rightarrow> [] | Inr y \<Rightarrow> y # successes f xs)"

fun collect ::
  "(ast \<Rightarrow> exn + (string \<times> MethodDecl)) \<Rightarrow> (string \<times> ast) list
    \<Rightarrow> (string \<times> string \<times> MethodDecl) list \<Rightarrow> (string \<times> string \<times> MethodDecl) list" where
  "collect visit [] d = d"
| "collect visit ((n, a) # rest) d =
     (case visit a of Inl _ \<Rightarrow> d | Inr t \<Rightarrow> collect visit rest (AList.update n t d))"

definition workunit_event :: "string \<times> ast \<Rightarrow> event" where
  "workunit_event = (\<lambda>(n, a). VisitWorkunit n a)"


fun checked_nodes :: "event list \<Rightarrow> ast list" where
  "checked_nodes [] = []"
| "checked_nodes (CheckSymbols a # t) = a # checked_nodes t"
| "checked_nodes (_ # t) = checked_nodes t"

fun visited_workunits :: "event list \<Rightarrow> (string \<times> ast) list" where
  "visited_workunits [] = []"
| "visited_workunits (VisitWorkunit n a # t) = (n, a) # visited_workunits t"
| "visited_workunits (_ # t) = visited_workunits t"

text \<open>The events of one run: what the trace holds beyond the trace it started with.\<close>

definition new_events :: "world \<Rightarrow> world \<Rightarrow> event list" where
  "new_events w0 w = drop (length (trace w0)) (trace w)"


text \<open>
  All nodes of a tree, the root first, and the assignments \<^verbatim>\<open>child.parent = node\<close>
  that a run over the nodes \<open>ns\<close> makes, in the order it makes them.
\<close>

fun nodes_of :: "ast \<Rightarrow> ast list" where
  "nodes_of (Node i cs) = Node i cs # concat (map nodes_of cs)"

definition assignments :: "ast list \<Rightarrow> (nat \<times> nat) list" where
  "assignments ns = concat (map (\<lambda>n. map (\<lambda>c. (node_id c, node_id n)) (child_nodes n)) ns)"



section \<open>A small compilation to run\<close>

text \<open>
  Collaborators simple enough to evaluate: the children of the entity's class
  are its workunits; a workunit with a nested node is one the visitor cannot
  translate; node 99 holds a name that resolves to nothing.
\<close>

definition norm_method :: MethodDecl where
  "norm_method =
     \<lparr>method_name = ''norm'', return_type = ''double'', params = [], body = [''return x * x;'']\<rparr>"

definition point_record :: RecordDecl where
  "point_record = RecordDecl ''Point'' [(''x'', ''double'')] [] [norm_method] True"

definition kernel_method :: "ast \<Rightarrow> MethodDecl" where
  "kernel_method a =
     \<lparr>method_name = ''operator()'', return_type = ''void'', params = [(''i'', ''int'')],
      body = []\<rparr>"

definition example_members :: "PyKokkosEntity \<Rightarrow> PyKokkosMembers" where
  "example_members e =
     \<lparr>pk_mains = [(''run'', Node 60 [])],
      pk_workunits = zip [''square'', ''cube'', ''total''] (child_nodes (AST e)),
      pk_functions = [(''helper'', Node 50 [])],
      views = [(''view'', ''View1D'')],
      fields_tab = [],
      classtype_methods = []\<rparr>"

definition example_collaborators :: collaborators where
  "example_collaborators =
     \<lparr>members_extract = (\<lambda>p e cts. example_members e),
      symbols_pass = (\<lambda>m imp pth p a. if node_id a = 99 then [''ghost is not defined''] else []),
      classtype_visitor = (\<lambda>args p a. Inr point_record),
      function_visitor = (\<lambda>args p a. Inr (kernel_method a)),
      workunit_visitor = (\<lambda>args p a.
         if child_nodes a = [] then Inr (''for'', kernel_method a)
         else Inl (Exception ''unsupported construct'')),
      generate_functor = (\<lambda>n m ws fs. RecordDecl n [] [] (fs @ map (\<lambda>w. snd (snd w)) ws) True),
      bind_main = (\<lambda>n m src imp mf. [''run'']),
      bind_workunits = (\<lambda>n m ws mf. map fst ws),
      serialize = (\<lambda>r. if is_definition r then ''struct '' @ record_name r @ '' {};''
                        else ''struct '' @ record_name r @ '';''),
      repr = (\<lambda>a. ''<ast.FunctionDef>'')\<rparr>"

definition example_entity :: "ast \<Rightarrow> PyKokkosEntity" where
  "example_entity classdef =
     \<lparr>style = function_group, name = ''kernels'', AST = classdef, source = ([], 1),
      path = ''kernels.py'', entity_pk_import = ''pk''\<rparr>"

definition good_class :: ast where
  "good_class = Node 0 [Node 1 [], Node 2 [], Node 3 []]"

definition faulty_class :: ast where
  "faulty_class = Node 0 [Node 1 [], Node 2 [Node 7 []], Node 3 []]"

definition point_classtype :: PyKokkosEntity where
  "point_classtype = example_entity (Node 20 [Node 21 []])"

definition ghost_classtype :: PyKokkosEntity where
  "ghost_classtype = example_entity (Node 99 [])"

definition start :: world where
  "start = \<lparr>parent = Map.empty, trace = [], stdout = []\<rparr>"

definition example_self :: "ast \<Rightarrow> StaticTranslator" where
  "example_self classdef =
     (init ''kernels'' ''functor.hpp'')
       \<lparr>pk_import := Some ''pk'',
        pk_members := Some (example_members (example_entity classdef))\<rparr>"

text \<open>
  Three runs: one that succeeds, one whose second workunit cannot be
  translated, one whose second classtype has an unresolved name.
\<close>

definition good_run ::
  "(string list \<times> string list) outcome \<times> StaticTranslator \<times> world" where
  "good_run =
     translate example_collaborators (init ''kernels'' ''functor.hpp'')
       (example_entity good_class) [point_classtype] start"

definition faulty_run ::
  "(string list \<times> string list) outcome \<times> StaticTranslator \<times> world" where
  "faulty_run =
     translate example_collaborators (init ''kernels'' ''functor.hpp'')
       (example_entity faulty_class) [point_classtype] start"

definition ghost_run ::
  "(string list \<times> string list) outcome \<times> StaticTranslator \<times> world" where
  "ghost_run =
     translate example_collaborators (init ''kernels'' ''functor.hpp'')
       (example_entity good_class) [point_classtype, ghost_classtype] start"







text \<open>
  A validator that has a diagnostic for every body, naming the node, and the
  run of the first compilation with it.
\<close>

definition two_digits :: "nat \<Rightarrow> string" where
  "two_digits n = [''0123456789'' ! (n div 10 mod 10), ''0123456789'' ! (n mod 10)]"

definition reporting_collaborators :: collaborators where
  "reporting_collaborators =
     example_collaborators
       \<lparr>symbols_pass := (\<lambda>m imp pth p a. [''unresolved name in node '' @ two_digits (node_id a)])\<rparr>"

definition reported_run ::
  "(string list \<times> string list) outcome \<times> StaticTranslator \<times> world" where
  "reported_run =
     translate reporting_collaborators (init ''kernels'' ''functor.hpp'')
       (example_entity good_class) [point_classtype] start"

text \<open>
  A tree in which one node object, node 9, is a child of two nodes, as the
  context objects \<^verbatim>\<open>Load()\<close> and \<^verbatim>\<open>Store()\<close> are in the trees of
  \<^verbatim>\<open>ast.parse\<close>.
\<close>

definition shared_tree :: ast where
  "shared_tree = Node 0 [Node 1 [Node 9 []], Node 2 [Node 9 []]]"

section \<open>Lemmas\<close>


lemma fold_print:
  "fold print es w = w\<lparr>stdout := stdout w @ es\<rparr>"
  by (induction es arbitrary: w) (simp_all add: print_def)

lemma check_loop_eq:
  "check_loop sp as es w =
     (es @ concat (map sp as), w\<lparr>trace := trace w @ map CheckSymbols as\<rparr>)"
  by (induction as arbitrary: es w) (simp_all add: log_def)

lemma check_symbols_eq:
  assumes "pk_members self = Some m" and "pk_import self = Some imp"
  shows "check_symbols C self cts pth w =
     (if concat (map (symbols_pass C m imp pth (parent w)) (bodies m cts)) \<noteq> []
      then SystemExit None else Returned (),
      w\<lparr>trace := trace w @ map CheckSymbols (bodies m cts),
        stdout := stdout w @ concat (map (symbols_pass C m imp pth (parent w)) (bodies m cts))\<rparr>)"
  using assms
  by (simp add: check_symbols_def check_loop_eq fold_print bodies_def Let_def)

lemma classtypes_loop_eq:
  fixes C m imp w
  defines "f \<equiv> \<lambda>c. classtype_visitor C (make_visitor_args m imp (source c)) (parent w) (AST c)"
  shows "trace w' = tr \<Longrightarrow> parent w' = parent w \<Longrightarrow> classtypes_loop C m imp cts decls defs w' =
     (case first_error f cts of
        None \<Rightarrow> Returned ((decls @ map (set_is_definition False) (successes f cts))
                  @ (defs @ successes f cts))
      | Some e \<Rightarrow> Raised e,
      w'\<lparr>trace := tr @ map (\<lambda>c. VisitClasstype (AST c)) (attempted f cts)\<rparr>)"
proof (induction cts arbitrary: decls defs w' tr)
  case Nil
  then show ?case by simp
next
  case (Cons c cts)
  show ?case
  proof (cases "f c")
    case (Inl e)
    then show ?thesis using Cons.prems by (simp add: f_def log_def)
  next
    case (Inr d)
    have "classtypes_loop C m imp (c # cts) decls defs w' =
        classtypes_loop C m imp cts (decls @ [set_is_definition False d]) (defs @ [d])
          (log (VisitClasstype (AST c)) w')"
      using Inr Cons.prems by (simp add: f_def Let_def)
    also have "\<dots> = (case first_error f cts of
        None \<Rightarrow> Returned (((decls @ [set_is_definition False d])
                    @ map (set_is_definition False) (successes f cts))
                  @ ((defs @ [d]) @ successes f cts))
      | Some e \<Rightarrow> Raised e,
      (log (VisitClasstype (AST c)) w')\<lparr>trace := (tr @ [VisitClasstype (AST c)])
          @ map (\<lambda>c. VisitClasstype (AST c)) (attempted f cts)\<rparr>)"
      by (rule Cons.IH) (simp_all add: log_def Cons.prems)
    finally show ?thesis using Inr by (simp add: log_def split: option.split)
  qed
qed

lemma functions_loop_eq:
  "functions_loop visit fs acc w =
     (case first_error visit fs of
        None \<Rightarrow> Returned (acc @ successes visit fs)
      | Some e \<Rightarrow> Raised e,
      w\<lparr>trace := trace w @ map VisitFunction (attempted visit fs)\<rparr>)"
proof (induction fs arbitrary: acc w)
  case Nil
  show ?case by simp
next
  case (Cons f fs)
  show ?case
  proof (cases "visit f")
    case (Inl e)
    then show ?thesis by (simp add: log_def)
  next
    case (Inr t)
    have "functions_loop visit (f # fs) acc w =
        functions_loop visit fs (acc @ [t]) (log (VisitFunction f) w)"
      using Inr by (simp add: Let_def)
    also note Cons.IH
    finally show ?thesis using Inr by (simp add: log_def split: option.split)
  qed
qed

lemma workunits_loop_eq:
  "workunits_loop C visit ws d w =
     (case first_error (\<lambda>x. visit (snd x)) ws of
        None \<Rightarrow> (Returned (collect visit ws d),
                 w\<lparr>trace := trace w @ map workunit_event ws\<rparr>)
      | Some e \<Rightarrow>
          (SystemExit (Some 1),
           w\<lparr>trace := trace w @ map workunit_event (attempted (\<lambda>x. visit (snd x)) ws),
             stdout := stdout w @
               [''Translation of '' @ repr C (snd (last (attempted (\<lambda>x. visit (snd x)) ws)))
                 @ '' failed'']\<rparr>))"
proof (induction ws arbitrary: d w)
  case Nil
  show ?case by simp
next
  case (Cons x ws)
  obtain n a where x: "x = (n, a)" by (cases x)
  show ?case
  proof (cases "visit a")
    case (Inl e)
    then show ?thesis by (simp add: x log_def print_def workunit_event_def)
  next
    case (Inr t)
    have ne: "first_error (\<lambda>x. visit (snd x)) ws \<noteq> None \<Longrightarrow> attempted (\<lambda>x. visit (snd x)) ws \<noteq> []"
      by (cases ws) auto
    have "workunits_loop C visit (x # ws) d w =
        workunits_loop C visit ws (AList.update n t d) (log (VisitWorkunit n a) w)"
      using Inr by (simp add: x Let_def)
    also note Cons.IH
    finally show ?thesis using Inr ne
      by (auto simp add: x log_def workunit_event_def split: option.split)
  qed
qed


lemma attempted_all: "first_error f xs = None \<Longrightarrow> attempted f xs = xs"
  by (induction xs) (auto split: sum.splits)

lemma world_eq: "(w::world) = \<lparr>parent = parent w, trace = trace w, stdout = stdout w\<rparr>"
  by simp

lemma translate_eq:
  fixes C self0 e cts w0
  defines "p \<equiv> parent w0"
    and "m \<equiv> compiled_members C e cts (parent w0)"
    and "cv \<equiv> classtype_visit C e cts (parent w0)"
    and "fv \<equiv> function_visit C e cts (parent w0)"
    and "wv \<equiv> (\<lambda>x. workunit_visit C e cts (parent w0) (snd x))"
  defines "self \<equiv> self0\<lparr>pk_import := Some (entity_pk_import e), pk_members := Some m\<rparr>"
    and "t3 \<equiv> trace w0 @ [Enter LinkParents, Enter ExtractMembers, Enter ValidateSymbols]
                @ map CheckSymbols (bodies m cts)"
  defines "t4 \<equiv> t3 @ Enter TranslateClasstypes
                # map (\<lambda>c. VisitClasstype (AST c)) (attempted cv cts)"
  defines "t5 \<equiv> t4 @ Enter TranslateFunctions
                # map VisitFunction (attempted fv (map snd (pk_functions m)))"
  defines "t6 \<equiv> t5 @ Enter TranslateWorkunits
                # map workunit_event (attempted wv (pk_workunits m))"
  shows "translate C self0 e cts w0 =
    (if diagnostics C e cts p \<noteq> [] then
       (SystemExit None, self,
        \<lparr>parent = linked_parents e cts p, trace = t3,
         stdout = stdout w0 @ diagnostics C e cts p\<rparr>)
     else case first_error cv cts of
       Some x \<Rightarrow> (Raised x, self,
         \<lparr>parent = linked_parents e cts p, trace = t4, stdout = stdout w0\<rparr>)
     | None \<Rightarrow>
    (case first_error fv (map snd (pk_functions m)) of
       Some x \<Rightarrow> (Raised x, self,
         \<lparr>parent = linked_parents e cts p, trace = t5, stdout = stdout w0\<rparr>)
     | None \<Rightarrow>
    (case first_error wv (pk_workunits m) of
       Some x \<Rightarrow> (SystemExit (Some 1), self,
         \<lparr>parent = linked_parents e cts p, trace = t6,
          stdout = stdout w0 @ [''Translation of ''
             @ repr C (snd (last (attempted wv (pk_workunits m)))) @ '' failed'']\<rparr>)
     | None \<Rightarrow>
        (Returned
          (generate_header
             # map (serialize C)
                 (map (set_is_definition False) (successes cv cts) @ successes cv cts)
             @ [serialize C (generate_functor C (''pk_functor_'' @ name e) m
                  (collect (workunit_visit C e cts (parent w0)) (pk_workunits m) [])
                  (successes fv (map snd (pk_functions m))))],
           generate_header # generate_includes self0
             # (if style e = workload
                then bind_main C (''pk_functor_'' @ name e) m (source e) (entity_pk_import e)
                       (module_file self0)
                else bind_workunits C (''pk_functor_'' @ name e) m
                       (collect (workunit_visit C e cts (parent w0)) (pk_workunits m) [])
                       (module_file self0))),
         self,
         \<lparr>parent = linked_parents e cts p,
          trace = t6 @ [Enter AssembleFunctor, Enter GenerateBindings, Enter Serialize],
          stdout = stdout w0\<rparr>))))"
proof -
  have sm: "pk_members self = Some m" and si: "pk_import self = Some (entity_pk_import e)"
    by (simp_all add: self_def)
  let ?par = "linked_parents e cts p"
  let ?w2 = "log (Enter ExtractMembers) (link_parents e cts (log (Enter LinkParents) w0))"
  have m2: "members_extract C (parent ?w2) e cts = m"
    by (simp add: m_def compiled_members_def log_def link_parents_def p_def)
  let ?w3 = "log (Enter ValidateSymbols) ?w2"
  have p3: "parent ?w3 = ?par" and tr3: "trace ?w3 = trace w0 @ [Enter LinkParents, Enter ExtractMembers, Enter ValidateSymbols]"
    and o3: "stdout ?w3 = stdout w0"
    by (simp_all add: log_def link_parents_def p_def)
  have dg: "concat (map (symbols_pass C m (entity_pk_import e) (path e) ?par) (bodies m cts))
      = diagnostics C e cts p"
    by (simp add: diagnostics_def m_def p_def)
  have cs: "check_symbols C self cts (path e) ?w3 =
     (if diagnostics C e cts p \<noteq> [] then SystemExit None else Returned (),
      \<lparr>parent = ?par, trace = t3, stdout = stdout w0 @ diagnostics C e cts p\<rparr>)"
    unfolding check_symbols_eq[OF sm si] p3 dg tr3 o3 t3_def
    by (subst (3) world_eq) (simp add: p3)
  let ?w4 = "log (Enter TranslateClasstypes)
      \<lparr>parent = ?par, trace = t3, stdout = stdout w0\<rparr>"
  have ct: "translate_classtypes C self cts ?w4 =
     (case first_error cv cts of
        None \<Rightarrow> Returned (map (set_is_definition False) (successes cv cts) @ successes cv cts)
      | Some x \<Rightarrow> Raised x,
      \<lparr>parent = ?par, trace = t4, stdout = stdout w0\<rparr>)"
    unfolding translate_classtypes_def
    apply (simp add: sm si)
    apply (subst classtypes_loop_eq[where w = ?w4 and tr = "t3 @ [Enter TranslateClasstypes]"])
      apply (simp_all add: log_def cv_def classtype_visit_def[abs_def] m_def p_def t4_def
        split: option.split)
    done
  let ?w5 = "log (Enter TranslateFunctions) \<lparr>parent = ?par, trace = t4, stdout = stdout w0\<rparr>"
  have tf: "translate_functions C self (source e) ?w5 =
     (case first_error fv (map snd (pk_functions m)) of
        None \<Rightarrow> Returned (successes fv (map snd (pk_functions m)))
      | Some x \<Rightarrow> Raised x,
      \<lparr>parent = ?par, trace = t5, stdout = stdout w0\<rparr>)"
    unfolding translate_functions_def
    by (simp add: sm si functions_loop_eq log_def fv_def function_visit_def m_def p_def t5_def
        split: option.split)
  let ?w6 = "log (Enter TranslateWorkunits) \<lparr>parent = ?par, trace = t5, stdout = stdout w0\<rparr>"
  have tw: "translate_workunits C self (source e) ?w6 =
     (case first_error wv (pk_workunits m) of
        None \<Rightarrow> (Returned (collect (workunit_visit C e cts (parent w0)) (pk_workunits m) []),
                 \<lparr>parent = ?par, trace = t6, stdout = stdout w0\<rparr>)
      | Some x \<Rightarrow> (SystemExit (Some 1),
         \<lparr>parent = ?par, trace = t6,
          stdout = stdout w0 @ [''Translation of ''
             @ repr C (snd (last (attempted wv (pk_workunits m)))) @ '' failed'']\<rparr>))"
    unfolding translate_workunits_def
    by (simp add: sm si workunits_loop_eq log_def wv_def workunit_visit_def m_def p_def t6_def
        attempted_all split: option.split)
  have asm: "assemble C self e cls fns wus \<lparr>parent = ?par, trace = t6, stdout = stdout w0\<rparr> =
     (Returned
          (generate_header # map (serialize C) cls
             @ [serialize C (generate_functor C (''pk_functor_'' @ name e) m wus fns)],
           generate_header # generate_includes self0
             # (if style e = workload
                then bind_main C (''pk_functor_'' @ name e) m (source e) (entity_pk_import e)
                       (module_file self0)
                else bind_workunits C (''pk_functor_'' @ name e) m wus (module_file self0))),
      \<lparr>parent = ?par,
          trace = t6 @ [Enter AssembleFunctor, Enter GenerateBindings, Enter Serialize],
          stdout = stdout w0\<rparr>)" for cls fns wus
    by (simp add: assemble_def generate_bindings_def sm si Let_def log_def self_def
        generate_includes_def include_headers_def)
  have tr: "translate C self0 e cts w0 =
      (case check_symbols C self cts (path e) ?w3 of
           (Raised x, w3) \<Rightarrow> (Raised x, self, w3)
         | (SystemExit n, w3) \<Rightarrow> (SystemExit n, self, w3)
         | (Returned _, w3) \<Rightarrow>
      (case translate_classtypes C self cts (log (Enter TranslateClasstypes) w3) of
           (Raised x, w4) \<Rightarrow> (Raised x, self, w4)
         | (SystemExit n, w4) \<Rightarrow> (SystemExit n, self, w4)
         | (Returned cls, w4) \<Rightarrow>
      (case translate_functions C self (source e) (log (Enter TranslateFunctions) w4) of
           (Raised x, w5) \<Rightarrow> (Raised x, self, w5)
         | (SystemExit n, w5) \<Rightarrow> (SystemExit n, self, w5)
         | (Returned functions, w5) \<Rightarrow>
      (case translate_workunits C self (source e) (log (Enter TranslateWorkunits) w5) of
           (Raised x, w6) \<Rightarrow> (Raised x, self, w6)
         | (SystemExit n, w6) \<Rightarrow> (SystemExit n, self, w6)
         | (Returned workunits, w6) \<Rightarrow>
             (case assemble C self e cls functions workunits w6 of
                (r, w7) \<Rightarrow> (r, self, w7))))))"
    unfolding translate_def Let_def self_def m2 ..
  show ?thesis
  proof (cases "diagnostics C e cts p = []")
    case False
    then show ?thesis unfolding tr cs by simp
  next
    case True
    show ?thesis unfolding tr cs
      by (simp add: True ct tf tw asm split: option.split)
  qed
qed

declare walk.simps [simp del]


lemma nodes_of_unfold: "nodes_of n = n # concat (map nodes_of (child_nodes n))"
  by (cases n) simp

lemma walk_children: "walk q = q @ concat (map child_nodes (walk q))"
proof (induction q rule: walk.induct)
  case 1
  show ?case by (simp add: walk.simps)
next
  case (2 n todo)
  have "walk (n # todo) = n # walk (todo @ child_nodes n)" by (simp add: walk.simps)
  then show ?case using 2 by simp
qed

lemma mset_walk: "mset (walk q) = mset (concat (map nodes_of q))"
proof (induction q rule: walk.induct)
  case 1
  show ?case by (simp add: walk.simps)
next
  case (2 n todo)
  have "mset (walk (n # todo)) = {#n#} + mset (concat (map nodes_of (todo @ child_nodes n)))"
    using 2 by (simp add: walk.simps)
  also have "\<dots> = mset (n # concat (map nodes_of (child_nodes n)))
                    + mset (concat (map nodes_of todo))"
    by simp
  also have "n # concat (map nodes_of (child_nodes n)) = nodes_of n"
    by (rule nodes_of_unfold[symmetric])
  finally show ?case by simp
qed

lemma set_walk: "set (walk [t]) = set (nodes_of t)"
  using mset_walk[of "[t]"] by (metis append_Nil2 concat.simps(1) concat.simps(2) list.simps(8) list.simps(9) set_mset_mset)

lemma fold_update_eq:
  "fold (\<lambda>kv p. p(fst kv \<mapsto> snd kv)) A p = p ++ map_of (rev A)"
  by (induction A arbitrary: p) (simp_all add: map_add_def fun_eq_iff split: option.split)

lemma set_parents_eq:
  "set_parents n p = fold (\<lambda>kv p. p(fst kv \<mapsto> snd kv)) (assignments [n]) p"
  by (simp add: set_parents_def assignments_def fold_map comp_def)

lemma add_parent_refs_fold:
  "fold set_parents ns p = fold (\<lambda>kv p. p(fst kv \<mapsto> snd kv)) (assignments ns) p"
proof (induction ns arbitrary: p)
  case Nil
  show ?case by (simp add: assignments_def)
next
  case (Cons n ns)
  have "assignments (n # ns) = assignments [n] @ assignments ns"
    by (simp add: assignments_def)
  then have "fold (\<lambda>kv p. p(fst kv \<mapsto> snd kv)) (assignments (n # ns)) p =
      fold (\<lambda>kv p. p(fst kv \<mapsto> snd kv)) (assignments ns) (set_parents n p)"
    by (simp only: fold_append o_apply set_parents_eq)
  also have "\<dots> = fold set_parents ns (set_parents n p)"
    by (rule Cons.IH[symmetric])
  finally show ?case by (simp only: fold_simps)
qed

lemma add_parent_refs_eq:
  "add_parent_refs t p = p ++ map_of (rev (assignments (walk [t])))"
  by (simp add: add_parent_refs_def add_parent_refs_fold fold_update_eq)

lemma add_parent_refs_idem:
  "add_parent_refs t (add_parent_refs t p) = add_parent_refs t p"
  by (simp add: add_parent_refs_eq map_add_def fun_eq_iff split: option.split)

lemma keys_assignments: "map fst (assignments ns) = map node_id (concat (map child_nodes ns))"
  by (induction ns) (simp_all add: assignments_def comp_def)

lemma distinct_keys:
  assumes "distinct (map node_id (nodes_of t))"
  shows "distinct (map fst (assignments (walk [t])))"
proof -
  have "mset (map node_id (walk [t])) = mset (map node_id (nodes_of t))"
    using mset_walk[of "[t]"] arg_cong[of "mset (walk [t])" "mset (nodes_of t)" "image_mset node_id"]
    by simp
  then have d: "distinct (map node_id (walk [t]))"
    using assms by (metis mset_eq_imp_distinct_iff)
  have "walk [t] = t # concat (map child_nodes (walk [t]))"
    using walk_children[of "[t]"] by simp
  then have "map node_id (walk [t]) = node_id t # map fst (assignments (walk [t]))"
    by (metis keys_assignments list.simps(9))
  with d show ?thesis by (metis distinct.simps(2))
qed

lemma assignment_mem:
  "n \<in> set ns \<Longrightarrow> c \<in> set (child_nodes n) \<Longrightarrow> (node_id c, node_id n) \<in> set (assignments ns)"
  by (auto simp: assignments_def)

lemma assignment_memD:
  "(k, v) \<in> set (assignments ns) \<Longrightarrow>
     \<exists>n \<in> set ns. \<exists>c \<in> set (child_nodes n). k = node_id c \<and> v = node_id n"
  by (auto simp: assignments_def)

lemma parent_of_child:
  assumes "distinct (map node_id (nodes_of t))" and "n \<in> set (nodes_of t)"
    and "c \<in> set (child_nodes n)"
  shows "add_parent_refs t p (node_id c) = Some (node_id n)"
proof -
  have "(node_id c, node_id n) \<in> set (rev (assignments (walk [t])))"
    using assms(2,3) by (simp add: assignment_mem set_walk)
  moreover have "distinct (map fst (rev (assignments (walk [t]))))"
    using distinct_keys[OF assms(1)] by (simp add: rev_map[symmetric])
  ultimately have "map_of (rev (assignments (walk [t]))) (node_id c) = Some (node_id n)"
    by (rule map_of_is_SomeI[rotated])
  then show ?thesis by (simp add: add_parent_refs_eq)
qed

lemma parent_of_shared_child:
  assumes "n \<in> set (nodes_of t)" and "c \<in> set (child_nodes n)"
  shows "\<exists>n' \<in> set (nodes_of t). \<exists>c' \<in> set (child_nodes n').
           node_id c' = node_id c \<and> add_parent_refs t p (node_id c) = Some (node_id n')"
proof -
  have "node_id c \<in> fst ` set (rev (assignments (walk [t])))"
    using assignment_mem[of n "walk [t]" c] assms by (force simp: set_walk)
  then obtain v where v: "map_of (rev (assignments (walk [t]))) (node_id c) = Some v"
    by (metis map_of_eq_None_iff not_Some_eq)
  then have "(node_id c, v) \<in> set (assignments (walk [t]))"
    using map_of_SomeD by fastforce
  from assignment_memD[OF this] obtain n' c' where
    "n' \<in> set (walk [t])" "c' \<in> set (child_nodes n')" "node_id c = node_id c'" "v = node_id n'"
    by blast
  with v show ?thesis
    by (intro bexI[of _ n'] bexI[of _ c']) (simp_all add: set_walk add_parent_refs_eq)
qed



lemma attempted_ok: "first_error f xs = None \<Longrightarrow> x \<in> set xs \<Longrightarrow> \<exists>y. f x = Inr y"
  by (induction xs) (auto split: sum.splits)

lemma successes_all: "first_error f xs = None \<Longrightarrow> map Inr (successes f xs) = map f xs"
  by (induction xs) (auto split: sum.splits)

lemma attempted_nonempty: "first_error f xs = Some e \<Longrightarrow> attempted f xs \<noteq> []"
  by (cases xs) auto

lemma attempted_bad_last:
  "x \<in> set (attempted f xs) \<Longrightarrow> f x = Inl e \<Longrightarrow>
     last (attempted f xs) = x \<and> first_error f xs = Some e"
proof (induction xs)
  case Nil
  then show ?case by simp
next
  case (Cons y ys)
  show ?case
  proof (cases "f y")
    case (Inl e')
    then show ?thesis using Cons.prems by simp
  next
    case (Inr b)
    then have mem: "x \<in> set (attempted f ys)" using Cons.prems by auto
    from Cons.IH[OF this Cons.prems(2)] Inr mem show ?thesis
      by (cases "attempted f ys") auto
  qed
qed


lemma checked_nodes_append: "checked_nodes (a @ b) = checked_nodes a @ checked_nodes b"
  by (induction a rule: checked_nodes.induct) simp_all

lemma visited_workunits_append:
  "visited_workunits (a @ b) = visited_workunits a @ visited_workunits b"
  by (induction a rule: visited_workunits.induct) simp_all


lemma checked_nodes_calls:
  "checked_nodes (map CheckSymbols as) = as"
  "checked_nodes (map (\<lambda>c. VisitClasstype (g c)) cs) = []"
  "checked_nodes (map VisitFunction fs) = []"
  "checked_nodes (map workunit_event ws) = []"
  by (induction as, simp_all, induction cs, simp_all, induction fs, simp_all,
      induction ws, simp_all add: workunit_event_def split: prod.split)

lemma visited_workunits_calls:
  "visited_workunits (map CheckSymbols as) = []"
  "visited_workunits (map (\<lambda>c. VisitClasstype (g c)) cs) = []"
  "visited_workunits (map VisitFunction fs) = []"
  "visited_workunits (map workunit_event ws) = ws"
  by (induction as, simp_all, induction cs, simp_all, induction fs, simp_all,
      induction ws, simp_all add: workunit_event_def split: prod.split)


lemma translate_outcomes:
  fixes C self0 e cts w0
  defines "m \<equiv> compiled_members C e cts (parent w0)"
    and "cv \<equiv> classtype_visit C e cts (parent w0)"
    and "fv \<equiv> function_visit C e cts (parent w0)"
    and "wv \<equiv> (\<lambda>x. workunit_visit C e cts (parent w0) (snd x))"
  defines "t3 \<equiv> [Enter LinkParents, Enter ExtractMembers, Enter ValidateSymbols]
                @ map CheckSymbols (bodies m cts)"
  defines "t4 \<equiv> t3 @ Enter TranslateClasstypes
                # map (\<lambda>c. VisitClasstype (AST c)) (attempted cv cts)"
  defines "t5 \<equiv> t4 @ Enter TranslateFunctions
                # map VisitFunction (attempted fv (map snd (pk_functions m)))"
  defines "t6 \<equiv> t5 @ Enter TranslateWorkunits
                # map workunit_event (attempted wv (pk_workunits m))"
  assumes run: "translate C self0 e cts w0 = (r, self, w)"
  obtains
    (symbols) "diagnostics C e cts (parent w0) \<noteq> []" "r = SystemExit None"
      "new_events w0 w = t3" "stdout w = stdout w0 @ diagnostics C e cts (parent w0)"
  | (classtype) x where "diagnostics C e cts (parent w0) = []" "first_error cv cts = Some x"
      "r = Raised x" "new_events w0 w = t4" "stdout w = stdout w0"
  | (helper) x where "diagnostics C e cts (parent w0) = []" "first_error cv cts = None"
      "first_error fv (map snd (pk_functions m)) = Some x"
      "r = Raised x" "new_events w0 w = t5" "stdout w = stdout w0"
  | (workunit) x where "diagnostics C e cts (parent w0) = []" "first_error cv cts = None"
      "first_error fv (map snd (pk_functions m)) = None"
      "first_error wv (pk_workunits m) = Some x"
      "r = SystemExit (Some 1)" "new_events w0 w = t6"
      "stdout w = stdout w0 @ [''Translation of ''
             @ repr C (snd (last (attempted wv (pk_workunits m)))) @ '' failed'']"
  | (finished) "diagnostics C e cts (parent w0) = []" "first_error cv cts = None"
      "first_error fv (map snd (pk_functions m)) = None"
      "first_error wv (pk_workunits m) = None"
      "r = Returned
          (generate_header
             # map (serialize C)
                 (map (set_is_definition False) (successes cv cts) @ successes cv cts)
             @ [serialize C (generate_functor C (''pk_functor_'' @ name e) m
                  (collect (workunit_visit C e cts (parent w0)) (pk_workunits m) [])
                  (successes fv (map snd (pk_functions m))))],
           generate_header # generate_includes self0
             # (if style e = workload
                then bind_main C (''pk_functor_'' @ name e) m (source e) (entity_pk_import e)
                       (module_file self0)
                else bind_workunits C (''pk_functor_'' @ name e) m
                       (collect (workunit_visit C e cts (parent w0)) (pk_workunits m) [])
                       (module_file self0)))"
      "new_events w0 w = t6 @ [Enter AssembleFunctor, Enter GenerateBindings, Enter Serialize]"
      "stdout w = stdout w0"
proof (cases "diagnostics C e cts (parent w0) = []")
  case False
  with run have "r = SystemExit None" "new_events w0 w = t3"
      "stdout w = stdout w0 @ diagnostics C e cts (parent w0)"
    by (auto simp: translate_eq new_events_def t3_def m_def)
  with False show ?thesis by (rule symbols)
next
  case d: True
  show ?thesis
  proof (cases "first_error cv cts")
    case (Some x)
    with run d have "r = Raised x" "new_events w0 w = t4" "stdout w = stdout w0"
      by (auto simp: translate_eq new_events_def t3_def t4_def m_def cv_def)
    with d Some show ?thesis by (rule classtype)
  next
    case c: None
    show ?thesis
    proof (cases "first_error fv (map snd (pk_functions m))")
      case (Some x)
      with run d c have "r = Raised x" "new_events w0 w = t5" "stdout w = stdout w0"
        by (auto simp: translate_eq new_events_def t3_def t4_def t5_def m_def cv_def fv_def)
      with d c Some show ?thesis by (rule helper)
    next
      case f: None
      show ?thesis
      proof (cases "first_error wv (pk_workunits m)")
        case (Some x)
        with run d c f have "r = SystemExit (Some 1)" "new_events w0 w = t6"
          "stdout w = stdout w0 @ [''Translation of ''
             @ repr C (snd (last (attempted wv (pk_workunits m)))) @ '' failed'']"
          by (auto simp: translate_eq new_events_def t3_def t4_def t5_def t6_def m_def cv_def
              fv_def wv_def)
        with d c f Some show ?thesis by (rule workunit)
      next
        case None
        with run d c f show ?thesis
          by (intro finished)
             (auto simp: translate_eq new_events_def t3_def t4_def t5_def t6_def m_def cv_def
              fv_def wv_def)
      qed
    qed
  qed
qed

lemma translate_self:
  "fst (snd (translate C self0 e cts w0)) =
     self0\<lparr>pk_import := Some (entity_pk_import e),
           pk_members := Some (compiled_members C e cts (parent w0))\<rparr>"
  by (simp add: translate_eq split: option.split)

lemma translate_parent:
  "parent (snd (snd (translate C self0 e cts w0))) = linked_parents e cts (parent w0)"
  by (simp add: translate_eq split: option.split)


lemma attempted_split:
  "first_error f xs = Some e \<Longrightarrow>
     \<exists>pre post. xs = pre @ last (attempted f xs) # post
        \<and> attempted f xs = pre @ [last (attempted f xs)]"
proof (induction xs)
  case Nil
  then show ?case by simp
next
  case (Cons y ys)
  show ?case
  proof (cases "f y")
    case (Inl e')
    then have "y # ys = [] @ last (attempted f (y # ys)) # ys
        \<and> attempted f (y # ys) = [] @ [last (attempted f (y # ys))]" by simp
    then show ?thesis by blast
  next
    case (Inr b)
    with Cons.prems have fe: "first_error f ys = Some e" by simp
    from Cons.IH[OF fe] obtain pre post where
      a: "ys = pre @ last (attempted f ys) # post" and b: "attempted f ys = pre @ [last (attempted f ys)]"
      by blast
    have l: "last (attempted f (y # ys)) = last (attempted f ys)"
      using Inr attempted_nonempty[OF fe] by simp
    have "y # ys = (y # pre) @ last (attempted f (y # ys)) # post" using a l by simp
    moreover have "attempted f (y # ys) = (y # pre) @ [last (attempted f (y # ys))]"
      using Inr b l by simp
    ultimately show ?thesis by blast
  qed
qed

lemma first_error_mem: "x \<in> set xs \<Longrightarrow> f x = Inl e \<Longrightarrow> first_error f xs \<noteq> None"
  by (induction xs) (auto split: sum.splits)

lemma trace_new_events:
  "translate C self0 e cts w0 = (r, self, w) \<Longrightarrow> trace w = trace w0 @ new_events w0 w"
  by (auto simp: translate_eq new_events_def split: if_splits option.splits)



subsection \<open>The object store\<close>

lemma extends_refl: "extends h h" by (simp add: extends_def)

lemma extends_trans: "extends h h1 \<Longrightarrow> extends h1 h2 \<Longrightarrow> extends h h2"
  by (auto simp: extends_def)

lemma val_within_mono: "val_within lo hi v \<Longrightarrow> hi \<le> hi' \<Longrightarrow> val_within lo hi' v"
  by (cases v) auto

lemma slots_with_slots:
  "length ys = length (slots ob) \<Longrightarrow> slots (with_slots ob ys) = ys"
  by (cases ob) simp_all

lemma slots_blank: "slots (blank ob) = []"
  by (cases ob) simp_all

lemma deepcopy_vals_length:
  "deepcopy_vals fuel vs s = Some r \<Longrightarrow> length (fst r) = length vs"
proof (induction vs arbitrary: s r)
  case Nil
  then show ?case by (cases s) auto
next
  case (Cons v vs)
  then show ?case
    by (cases s) (auto split: option.splits prod.splits)
qed

lemma store_inv_alloc:
  assumes "store_inv n0 (h, m)" and "m a = None"
  shows "store_inv n0 (h @ [blank ob], m(a \<mapsto> length h))"
proof -
  from assms(1) have n: "n0 \<le> length h" and mo: "memo_ok n0 h m" and fr: "fresh_region n0 h"
    by (simp_all add: store_inv_def)
  have "memo_ok n0 (h @ [blank ob]) (m(a \<mapsto> length h))"
    using mo n by (auto simp: memo_ok_def less_Suc_eq)
  moreover have "fresh_region n0 (h @ [blank ob])"
    unfolding fresh_region_def
  proof (intro allI impI)
    fix b assume b: "n0 \<le> b \<and> b < length (h @ [blank ob])"
    show "list_all (val_within n0 (length (h @ [blank ob]))) (slots ((h @ [blank ob]) ! b))"
    proof (cases "b < length h")
      case True
      with b fr have "list_all (val_within n0 (length h)) (slots (h ! b))"
        by (simp add: fresh_region_def)
      then have "list_all (val_within n0 (Suc (length h))) (slots (h ! b))"
        by (rule list.pred_mono_strong) (auto intro: val_within_mono)
      with True show ?thesis by (simp add: nth_append)
    next
      case False
      with b have "b = length h" by simp
      then show ?thesis by (simp add: slots_blank)
    qed
  qed
  ultimately show ?thesis using n by (simp add: store_inv_def)
qed

lemma store_inv_fill:
  assumes "store_inv n0 (h2, m2)" and "y < length h2" and "n0 \<le> y"
    and "list_all (val_within n0 (length h2)) ys" and "length ys = length (slots ob)"
  shows "store_inv n0 (h2[y := with_slots ob ys], m2)"
proof -
  from assms(1) have n: "n0 \<le> length h2" and mo: "memo_ok n0 h2 m2" and fr: "fresh_region n0 h2"
    by (simp_all add: store_inv_def)
  have "fresh_region n0 (h2[y := with_slots ob ys])"
    unfolding fresh_region_def
  proof (intro allI impI)
    fix b assume b: "n0 \<le> b \<and> b < length (h2[y := with_slots ob ys])"
    show "list_all (val_within n0 (length (h2[y := with_slots ob ys])))
            (slots (h2[y := with_slots ob ys] ! b))"
    proof (cases "b = y")
      case True
      then show ?thesis using assms(2,4,5) by (simp add: slots_with_slots)
    next
      case False
      then show ?thesis using b fr by (simp add: fresh_region_def)
    qed
  qed
  then show ?thesis using n mo by (simp add: store_inv_def memo_ok_def)
qed

lemma deepcopy_good:
  "deepcopy fuel v s = Some r \<Longrightarrow> store_inv n0 s \<Longrightarrow> good n0 s r"
  "deepcopy_vals fuel vs s = Some rs \<Longrightarrow> store_inv n0 s \<Longrightarrow> goods n0 s rs"
proof (induction fuel v s and fuel vs s arbitrary: r and rs rule: deepcopy_deepcopy_vals.induct)
  case (1 fuel x h memo)
  then show ?case by (auto simp: good_def extends_def store_inv_def)
next
  case (2 a h memo)
  then show ?case by simp
next
  case (3 fuel a h memo)
  show ?case
  proof (cases "memo a")
    case (Some y)
    with "3.prems" show ?thesis
      by (auto simp: good_def extends_def store_inv_def memo_ok_def)
  next
    case None
    with "3.prems"(1) have a: "\<not> length h \<le> a" by (auto split: if_splits)
    let ?h1 = "h @ [blank (h ! a)]" and ?m1 = "memo(a \<mapsto> length h)"
    from "3.prems"(1) None a obtain ys h2 m2 where
      sub: "deepcopy_vals fuel (slots (h ! a)) (?h1, ?m1) = Some (ys, h2, m2)"
      and r: "r = (Ref (length h), h2[length h := with_slots (h ! a) ys], m2)"
      by (auto split: option.splits)
    have inv1: "store_inv n0 (?h1, ?m1)" using "3.prems"(2) None by (rule store_inv_alloc)
    from "3.IH"[OF None a sub inv1] have g: "goods n0 (?h1, ?m1) (ys, h2, m2)" .
    then have e12: "extends ?h1 h2" and m12: "?m1 \<subseteq>\<^sub>m m2" and inv2: "store_inv n0 (h2, m2)"
      and ysw: "list_all (val_within n0 (length h2)) ys"
      by (simp_all add: goods_def)
    have len: "length ys = length (slots (h ! a))"
      using deepcopy_vals_length[OF sub] by simp
    have n: "n0 \<le> length h" using "3.prems"(2) by (simp add: store_inv_def)
    have y2: "length h < length h2" using e12 by (simp add: extends_def)
    have "extends h (h2[length h := with_slots (h ! a) ys])"
      using e12 by (auto simp: extends_def nth_append)
    moreover have "memo \<subseteq>\<^sub>m m2"
    proof -
      have "memo \<subseteq>\<^sub>m ?m1" using None by (auto simp: map_le_def)
      then show ?thesis using m12 by (rule map_le_trans)
    qed
    moreover have "store_inv n0 (h2[length h := with_slots (h ! a) ys], m2)"
      using inv2 y2 n ysw len by (rule store_inv_fill)
    moreover have "val_within n0 (length (h2[length h := with_slots (h ! a) ys])) (Ref (length h))"
      using n y2 by simp
    ultimately show ?thesis by (simp add: good_def r)
  qed
next
  case (4 fuel h memo)
  then show ?case by (auto simp: goods_def extends_def store_inv_def)
next
  case (5 fuel v vs h memo)
  from "5.prems"(1) obtain v' h1 m1 vs' h2 m2 where
    one: "deepcopy fuel v (h, memo) = Some (v', h1, m1)"
    and rest: "deepcopy_vals fuel vs (h1, m1) = Some (vs', h2, m2)"
    and rs: "rs = (v' # vs', h2, m2)"
    by (auto split: option.splits)
  from "5.IH"(1)[OF one "5.prems"(2)] have g1: "good n0 (h, memo) (v', h1, m1)" .
  then have inv1: "store_inv n0 (h1, m1)" by (simp add: good_def)
  from "5.IH"(2)[OF one refl refl rest inv1] have g2: "goods n0 (h1, m1) (vs', h2, m2)" .
  have "extends h h2" using g1 g2 by (auto simp: good_def goods_def intro: extends_trans)
  moreover have "memo \<subseteq>\<^sub>m m2" using g1 g2 by (auto simp: good_def goods_def intro: map_le_trans)
  moreover have "val_within n0 (length h2) v'"
    using g1 g2 by (auto simp: good_def goods_def extends_def intro: val_within_mono)
  ultimately show ?case using g2 by (simp add: goods_def rs)
qed

lemma slots_update_attr:
  "list_all P (map snd as) \<Longrightarrow> P v \<Longrightarrow> list_all P (map snd (AList.update k v as))"
  by (induction as) (auto)

lemma deepcopy_ref_valid:
  "deepcopy fuel (Ref a) (h, Map.empty) = Some r \<Longrightarrow> a < length h"
  by (cases fuel) (auto split: if_splits)

lemma closed_slots:
  "closed h \<Longrightarrow> b < length h \<Longrightarrow> Ref c \<in> set (slots (h ! b)) \<Longrightarrow> c < length h"
proof -
  assume c: "closed h" and b: "b < length h" and r: "Ref c \<in> set (slots (h ! b))"
  from c b have "list_all (val_within 0 (length h)) (slots (h ! b))"
    by (simp add: closed_def list_all_length)
  with r have "val_within 0 (length h) (Ref c)" by (auto simp: list_all_iff)
  then show ?thesis by simp
qed

lemma make_declaration_frame:
  assumes run: "make_declaration fuel h definition = Some (declaration, h')"
    and closed: "closed h"
  shows "length h \<le> declaration \<and> declaration < length h'
     \<and> (\<forall>a < length h. h' ! a = h ! a)
     \<and> getattr h' definition ''is_definition'' = getattr h definition ''is_definition''
     \<and> getattr h' declaration ''is_definition'' = Some (Atom (ABool False))
     \<and> (\<forall>a. reach h' definition a \<longrightarrow> a < length h \<and> reach h definition a)
     \<and> (\<forall>a. reach h' declaration a \<longrightarrow> length h \<le> a)
     \<and> (\<forall>a. reach h' definition a \<longrightarrow> \<not> reach h' declaration a)"
proof -
  let ?n = "length h"
  from run obtain h1 m where
    cp: "deepcopy fuel (Ref definition) (h, Map.empty) = Some (Ref declaration, h1, m)"
    and st: "setattr h1 declaration ''is_definition'' (Atom (ABool False)) = Some h'"
    by (auto simp: make_declaration_def split: option.splits val.splits)
  have d: "definition < ?n" using cp by (rule deepcopy_ref_valid)
  have "store_inv ?n (h, Map.empty)" by (auto simp: store_inv_def memo_ok_def fresh_region_def)
  with cp have g: "good ?n (h, Map.empty) (Ref declaration, h1, m)" by (rule deepcopy_good(1))
  then have e: "extends h h1" and i1: "store_inv ?n (h1, m)" and dn: "?n \<le> declaration"
    and d1: "declaration < length h1"
    by (simp_all add: good_def)
  from st d1 obtain c as where
    o: "h1 ! declaration = Instance c as"
    and h': "h' = h1[declaration := Instance c (AList.update ''is_definition'' (Atom (ABool False)) as)]"
    by (auto split: obj.splits if_splits)
  have len: "length h' = length h1" by (simp add: h')
  have frame: "\<forall>a < ?n. h' ! a = h ! a"
    using e dn by (auto simp: h' extends_def)
  have fr1: "fresh_region ?n h1" using i1 by (simp add: store_inv_def)
  have fr: "fresh_region ?n h'"
    unfolding fresh_region_def
  proof (intro allI impI)
    fix b assume b: "?n \<le> b \<and> b < length h'"
    from b fr1 len have s: "list_all (val_within ?n (length h1)) (slots (h1 ! b))"
      by (simp add: fresh_region_def)
    show "list_all (val_within ?n (length h')) (slots (h' ! b))"
    proof (cases "b = declaration")
      case True
      with s o have "list_all (val_within ?n (length h1)) (map snd as)" by simp
      then have "list_all (val_within ?n (length h1))
          (map snd (AList.update ''is_definition'' (Atom (ABool False)) as))"
        by (rule slots_update_attr) simp
      with True d1 show ?thesis by (simp add: h')
    next
      case False
      with s show ?thesis by (simp add: h')
    qed
  qed
  have rdecl: "reach h' declaration a \<Longrightarrow> ?n \<le> a \<and> a < length h'" for a
  proof (induction rule: reach.induct)
    case reach_self
    show ?case using dn d1 len by simp
  next
    case (reach_step b c)
    from reach_step.IH fr have "list_all (val_within ?n (length h')) (slots (h' ! b))"
      by (simp add: fresh_region_def)
    with reach_step.hyps(3) have "val_within ?n (length h') (Ref c)"
      by (auto simp: list_all_iff)
    then show ?case by simp
  qed
  have rdef: "reach h' definition a \<Longrightarrow> a < ?n \<and> reach h definition a" for a
  proof (induction rule: reach.induct)
    case reach_self
    show ?case using d by (simp add: reach.reach_self)
  next
    case (reach_step b c)
    then have b: "b < ?n" and rb: "reach h definition b" by simp_all
    from frame b have eq: "h' ! b = h ! b" by simp
    with reach_step.hyps(3) have m: "Ref c \<in> set (slots (h ! b))" by simp
    from closed_slots[OF closed b m] reach.reach_step[OF rb b m] show ?case by simp
  qed
  have "getattr h' definition ''is_definition'' = getattr h definition ''is_definition''"
    using frame d e len by (simp add: extends_def)
  moreover have "getattr h' declaration ''is_definition'' = Some (Atom (ABool False))"
    using d1 by (simp add: h' update_conv')
  moreover have "\<not> reach h' declaration a" if "reach h' definition a" for a
    using rdef[OF that] rdecl[of a] by auto
  ultimately show ?thesis using dn d1 len frame rdecl rdef
    by (simp del: getattr.simps)
qed

lemma todo_alloc: "a < n0 \<Longrightarrow> m a = None \<Longrightarrow> todo n0 (m(a \<mapsto> y)) < todo n0 m"
  unfolding todo_def
  by (rule psubset_card_mono) auto

lemma todo_mono: "m \<subseteq>\<^sub>m m' \<Longrightarrow> todo n0 m' \<le> todo n0 m"
  unfolding todo_def
proof (rule card_mono)
  show "finite {a. a < n0 \<and> m a = None}" by simp
next
  assume le: "m \<subseteq>\<^sub>m m'"
  show "{a. a < n0 \<and> m' a = None} \<subseteq> {a. a < n0 \<and> m a = None}"
  proof
    fix a assume "a \<in> {a. a < n0 \<and> m' a = None}"
    then have a: "a < n0" "m' a = None" by simp_all
    have "m a = None"
    proof (rule ccontr)
      assume "m a \<noteq> None"
      then have "a \<in> dom m" by auto
      with le have "m' a = m a" by (simp add: map_le_def)
      with a \<open>m a \<noteq> None\<close> show False by simp
    qed
    with a show "a \<in> {a. a < n0 \<and> m a = None}" by simp
  qed
qed

lemma originals_ext: "originals n0 h \<Longrightarrow> extends h h' \<Longrightarrow> originals n0 h'"
  by (auto simp: originals_def extends_def)

lemma originals_alloc: "originals n0 h \<Longrightarrow> originals n0 (h @ [x])"
  by (auto simp: originals_def nth_append)

lemma deepcopy_total:
  "store_inv n0 s \<Longrightarrow> originals n0 (fst s) \<Longrightarrow> val_within 0 n0 v \<Longrightarrow> todo n0 (snd s) < fuel
     \<Longrightarrow> deepcopy fuel v s \<noteq> None"
  "store_inv n0 s \<Longrightarrow> originals n0 (fst s) \<Longrightarrow> list_all (val_within 0 n0) vs
     \<Longrightarrow> todo n0 (snd s) < fuel \<Longrightarrow> deepcopy_vals fuel vs s \<noteq> None"
proof (induction fuel v s and fuel vs s rule: deepcopy_deepcopy_vals.induct)
  case (1 fuel x h memo)
  show ?case by simp
next
  case (2 a h memo)
  then show ?case by simp
next
  case (3 fuel a h memo)
  show ?case
  proof (cases "memo a")
    case (Some y)
    then show ?thesis by simp
  next
    case None
    from "3.prems" have a: "a < n0" and n: "n0 \<le> length h" and org: "originals n0 h"
      by (simp_all add: originals_def)
    then have al: "\<not> length h \<le> a" by simp
    let ?h1 = "h @ [blank (h ! a)]" and ?m1 = "memo(a \<mapsto> length h)"
    have i1: "store_inv n0 (?h1, ?m1)" using "3.prems"(1) None by (rule store_inv_alloc)
    have o1: "originals n0 (fst (?h1, ?m1))" using org by (simp add: originals_alloc)
    have s1: "list_all (val_within 0 n0) (slots (h ! a))"
      using org a by (simp add: originals_def)
    have t1: "todo n0 (snd (?h1, ?m1)) < fuel"
      using todo_alloc[of a n0 memo "length h"] a None "3.prems"(4) by simp
    from "3.IH"[OF None al i1 o1 s1 t1] None al show ?thesis
      by (auto split: option.splits)
  qed
next
  case (4 fuel h memo)
  show ?case by simp
next
  case (5 fuel v vs h memo)
  from "5.prems" have v: "val_within 0 n0 v" and vs: "list_all (val_within 0 n0) vs" by simp_all
  from "5.IH"(1)[OF "5.prems"(1,2) v "5.prems"(4)] obtain v' h1 m1 where
    one: "deepcopy fuel v (h, memo) = Some (v', h1, m1)" by auto
  from deepcopy_good(1)[OF one "5.prems"(1)] have g: "good n0 (h, memo) (v', h1, m1)" .
  then have i1: "store_inv n0 (h1, m1)" and e: "extends h h1" and le: "memo \<subseteq>\<^sub>m m1"
    by (simp_all add: good_def)
  have o1: "originals n0 (fst (h1, m1))" using "5.prems"(2) e by (simp add: originals_ext)
  have t1: "todo n0 (snd (h1, m1)) < fuel" using todo_mono[OF le, of n0] "5.prems"(4) by simp
  from "5.IH"(2)[OF one refl refl i1 o1 vs t1] one show ?case
    by (auto split: option.splits)
qed

lemma closed_originals: "closed h \<Longrightarrow> originals (length h) h"
  by (simp add: closed_def originals_def list_all_length)

lemma make_declaration_total:
  assumes "closed h" and d: "definition < length h" and o: "h ! definition = Instance c as"
    and f: "length h < fuel"
  shows "\<exists>declaration h'. make_declaration fuel h definition = Some (declaration, h')"
proof -
  let ?n = "length h"
  have i: "store_inv ?n (h, Map.empty)" by (auto simp: store_inv_def memo_ok_def fresh_region_def)
  have t: "todo ?n (snd (h, Map.empty :: memo)) < fuel"
    using f by (simp add: todo_def)
  have "deepcopy fuel (Ref definition) (h, Map.empty) \<noteq> None"
    using i closed_originals[OF assms(1)] d t
    by (intro deepcopy_total(1)[where ?n0.0 = ?n]) simp_all
  then obtain r where r: "deepcopy fuel (Ref definition) (h, Map.empty) = Some r" by auto
  from f obtain fuel' where fu: "fuel = Suc fuel'" by (cases fuel) auto
  from r[unfolded fu] d obtain ys h2 m2 where
    sub: "deepcopy_vals fuel' (slots (h ! definition))
            (h @ [blank (h ! definition)], Map.empty(definition \<mapsto> ?n)) = Some (ys, h2, m2)"
    and rr: "r = (Ref ?n, h2[?n := with_slots (h ! definition) ys], m2)"
    by (auto split: option.splits)
  have "store_inv ?n (h @ [blank (h ! definition)], Map.empty(definition \<mapsto> ?n))"
    using i by (rule store_inv_alloc) simp
  from deepcopy_good(2)[OF sub this] have "extends (h @ [blank (h ! definition)]) h2"
    by (simp add: goods_def)
  then have l: "?n < length h2" by (simp add: extends_def)
  then have "\<exists>h'. setattr (h2[?n := with_slots (h ! definition) ys]) ?n ''is_definition''
      (Atom (ABool False)) = Some h'"
    by (simp add: o)
  with r rr show ?thesis by (auto simp: make_declaration_def)
qed

lemma rename_stable: "covered m v \<Longrightarrow> m \<subseteq>\<^sub>m m' \<Longrightarrow> rename m' v = rename m v"
  by (cases v) (auto simp: map_le_def dom_def split: option.splits)

lemma covered_mono: "covered m v \<Longrightarrow> m \<subseteq>\<^sub>m m' \<Longrightarrow> covered m' v"
  by (cases v) (auto simp: map_le_def dom_def)

lemma copied_stable:
  assumes c: "copied h0 h m a" and le: "m \<subseteq>\<^sub>m m'" and ma: "m a \<noteq> None"
    and same: "\<And>b. m a = Some b \<Longrightarrow> h' ! b = h ! b"
  shows "copied h0 h' m' a"
proof -
  from ma obtain b where b: "m a = Some b" by auto
  with le have b': "m' a = Some b" by (auto simp: map_le_def dom_def)
  from c b have cov: "list_all (covered m) (slots (h0 ! a))"
    and eq: "h ! b = with_slots (h0 ! a) (map (rename m) (slots (h0 ! a)))"
    by (simp_all add: copied_def)
  have "list_all (covered m') (slots (h0 ! a))"
    using cov le by (auto simp: list_all_iff intro: covered_mono)
  moreover have "map (rename m') (slots (h0 ! a)) = map (rename m) (slots (h0 ! a))"
    using cov le by (auto simp: list_all_iff intro: rename_stable)
  moreover have "h' ! b = with_slots (h0 ! a) (map (rename m) (slots (h0 ! a)))"
    using eq same[OF b] by simp
  ultimately show ?thesis using b' by (simp only: copied_def option.case)
qed

lemma copy_pre_step:
  assumes p: "copy_pre n0 h0 s" and g: "extends (fst s) (fst s')" and i: "store_inv n0 s'"
    and j: "inj_on (snd s') (dom (snd s'))"
  shows "copy_pre n0 h0 s'"
  using assms by (auto simp: copy_pre_def originals_ext extends_def originals_def)

lemma copy_iso_refl: "inj_on m (dom m) \<Longrightarrow> copy_iso h0 (h, m) (h, m)"
  by (auto simp: copy_iso_def)

lemma copy_isoD1: "copy_iso h0 (h, m) (h', m') \<Longrightarrow> copied h0 h m a \<Longrightarrow> copied h0 h' m' a"
  by (simp add: copy_iso_def)

lemma copy_isoD2:
  "copy_iso h0 (h, m) (h', m') \<Longrightarrow> m' a = Some b \<Longrightarrow> m a = None \<Longrightarrow> length h \<le> b"
  by (simp add: copy_iso_def)

lemma copy_isoD3: "copy_iso h0 s (h', m') \<Longrightarrow> inj_on m' (dom m')"
  by (simp add: copy_iso_def)

lemma copy_isoI:
  "(\<And>a. copied h0 h m a \<Longrightarrow> copied h0 h' m' a) \<Longrightarrow>
   (\<And>a b. m' a = Some b \<Longrightarrow> m a = None \<Longrightarrow> length h \<le> b) \<Longrightarrow>
   inj_on m' (dom m') \<Longrightarrow> copy_iso h0 (h, m) (h', m')"
  unfolding copy_iso_def by auto

lemma copy_iso_trans:
  assumes a: "copy_iso h0 (h, m) (h1, m1)" and b: "copy_iso h0 (h1, m1) (h2, m2)"
    and l: "length h \<le> length h1" and le: "m1 \<subseteq>\<^sub>m m2"
  shows "copy_iso h0 (h, m) (h2, m2)"
proof (rule copy_isoI)
  fix x assume "copied h0 h m x"
  then have "copied h0 h1 m1 x" by (rule copy_isoD1[OF a])
  then show "copied h0 h2 m2 x" by (rule copy_isoD1[OF b])
next
  fix x y assume x2: "m2 x = Some y" and x0: "m x = None"
  show "length h \<le> y"
  proof (cases "m1 x")
    case None
    from copy_isoD2[OF b x2 None] l show ?thesis by simp
  next
    case (Some y1)
    with le have "m2 x = Some y1" by (auto simp: map_le_def dom_def)
    with x2 have "y1 = y" by simp
    with copy_isoD2[OF a Some x0] show ?thesis by simp
  qed
next
  show "inj_on m2 (dom m2)" using b by (rule copy_isoD3)
qed

lemma deepcopy_iso:
  "deepcopy fuel v s = Some r \<Longrightarrow> copy_pre n0 h0 s \<Longrightarrow> val_within 0 n0 v \<Longrightarrow>
     fst r = rename (snd (snd r)) v \<and> covered (snd (snd r)) v \<and> copy_iso h0 s (snd r)"
  "deepcopy_vals fuel vs s = Some rs \<Longrightarrow> copy_pre n0 h0 s \<Longrightarrow> list_all (val_within 0 n0) vs \<Longrightarrow>
     fst rs = map (rename (snd (snd rs))) vs \<and> list_all (covered (snd (snd rs))) vs
     \<and> copy_iso h0 s (snd rs)"
proof (induction fuel v s and fuel vs s arbitrary: r and rs rule: deepcopy_deepcopy_vals.induct)
  case (1 fuel x h memo)
  then show ?case by (auto simp: copy_pre_def copy_iso_refl)
next
  case (2 a h memo)
  then show ?case by simp
next
  case (3 fuel a h memo)
  from "3.prems"(2) have i0: "store_inv n0 (h, memo)" and org: "originals n0 h"
    and same0: "\<forall>a < n0. h ! a = h0 ! a" and inj0: "inj_on memo (dom memo)"
    by (simp_all add: copy_pre_def)
  from i0 have n: "n0 \<le> length h" and mo: "memo_ok n0 h memo" by (simp_all add: store_inv_def)
  from "3.prems"(3) have an: "a < n0" by simp
  show ?case
  proof (cases "memo a")
    case (Some y)
    with "3.prems" show ?thesis by (auto simp: copy_pre_def copy_iso_refl)
  next
    case None
    from an n have al: "\<not> length h \<le> a" by simp
    let ?y = "length h"
    let ?h1 = "h @ [blank (h ! a)]" and ?m1 = "memo(a \<mapsto> ?y)"
    from "3.prems"(1) None al obtain ys h2 m2 where
      sub: "deepcopy_vals fuel (slots (h ! a)) (?h1, ?m1) = Some (ys, h2, m2)"
      and r: "r = (Ref ?y, h2[?y := with_slots (h ! a) ys], m2)"
      by (auto split: option.splits)
    let ?h3 = "h2[?y := with_slots (h ! a) ys]"
    have inv1: "store_inv n0 (?h1, ?m1)" using i0 None by (rule store_inv_alloc)
    have inj1: "inj_on ?m1 (dom ?m1)"
    proof (rule inj_onI)
      fix x z assume x: "x \<in> dom ?m1" and z: "z \<in> dom ?m1" and e: "?m1 x = ?m1 z"
      have no: "memo u \<noteq> Some ?y" for u using mo by (auto simp: memo_ok_def)
      show "x = z"
      proof (cases "x = a")
        case True
        with e no[of z] show ?thesis by (cases "z = a") auto
      next
        case xa: False
        show ?thesis
        proof (cases "z = a")
          case True
          with e xa no[of x] show ?thesis by auto
        next
          case False
          with xa x z e inj0 show ?thesis by (auto simp: inj_on_def dom_def)
        qed
      qed
    qed
    have pre1: "copy_pre n0 h0 (?h1, ?m1)"
      using inv1 org same0 n inj1 by (auto simp: copy_pre_def originals_alloc nth_append)
    have sl: "list_all (val_within 0 n0) (slots (h ! a))" using org an by (simp add: originals_def)
    from "3.IH"[OF None al sub pre1 sl] have
      ys: "ys = map (rename m2) (slots (h ! a))"
      and cov: "list_all (covered m2) (slots (h ! a))"
      and iso1: "copy_iso h0 (?h1, ?m1) (h2, m2)"
      by simp_all
    from deepcopy_good(2)[OF sub inv1] have e12: "extends ?h1 h2" and le12: "?m1 \<subseteq>\<^sub>m m2"
      by (simp_all add: goods_def)
    have y2: "?y < length h2" using e12 by (simp add: extends_def)
    have m2a: "m2 a = Some ?y" using le12 by (auto simp: map_le_def dom_def)
    have ha: "h ! a = h0 ! a" using same0 an by simp
    have cp: "copied h0 ?h3 m2 x" if c: "copied h0 h memo x" for x
    proof (cases "x = a")
      case True
      show ?thesis using m2a y2 cov ys ha by (simp add: copied_def True)
    next
      case xa: False
      have c1: "copied h0 ?h1 ?m1 x"
      proof (cases "memo x")
        case None
        with xa show ?thesis by (simp add: copied_def)
      next
        case (Some b)
        have le: "memo \<subseteq>\<^sub>m ?m1" using \<open>memo a = None\<close> by (auto simp: map_le_def)
        have same: "?h1 ! b' = h ! b'" if "memo x = Some b'" for b'
          using mo that by (auto simp: memo_ok_def nth_append)
        have nn: "memo x \<noteq> None" using Some by simp
        show ?thesis using c le nn same by (rule copied_stable)
      qed
      from copy_isoD1[OF iso1 c1] have c2: "copied h0 h2 m2 x" .
      show ?thesis
      proof (cases "m2 x")
        case None
        then show ?thesis by (simp add: copied_def)
      next
        case (Some b)
        have "b \<noteq> ?y"
        proof (cases "memo x")
          case None
          with xa have "?m1 x = None" by simp
          from copy_isoD2[OF iso1 \<open>m2 x = Some b\<close> this] have "length ?h1 \<le> b" .
          then show ?thesis by simp
        next
          case (Some b1)
          with xa have "?m1 x = Some b1" by simp
          with le12 have "m2 x = Some b1" by (auto simp: map_le_def dom_def)
          with \<open>m2 x = Some b\<close> have "b = b1" by simp
          with Some mo show ?thesis by (auto simp: memo_ok_def)
        qed
        with c2 Some show ?thesis by (simp add: copied_def)
      qed
    qed
    have fn: "?y \<le> b" if "m2 x = Some b" and "memo x = None" for x b
    proof (cases "x = a")
      case True
      with that m2a show ?thesis by simp
    next
      case False
      with that(2) have "?m1 x = None" by simp
      from copy_isoD2[OF iso1 that(1) this] have "length ?h1 \<le> b" .
      then show ?thesis by simp
    qed
    have "inj_on m2 (dom m2)" using iso1 by (rule copy_isoD3)
    with cp fn have "copy_iso h0 (h, memo) (?h3, m2)" by (intro copy_isoI)
    then show ?thesis using m2a by (simp add: r)
  qed
next
  case (4 fuel h memo)
  then show ?case by (auto simp: copy_pre_def copy_iso_refl)
next
  case (5 fuel v vs h memo)
  from "5.prems"(3) have v: "val_within 0 n0 v" and vs: "list_all (val_within 0 n0) vs"
    by simp_all
  from "5.prems"(2) have i0: "store_inv n0 (h, memo)" by (simp add: copy_pre_def)
  from "5.prems"(1) obtain v' h1 m1 vs' h2 m2 where
    one: "deepcopy fuel v (h, memo) = Some (v', h1, m1)"
    and rest: "deepcopy_vals fuel vs (h1, m1) = Some (vs', h2, m2)"
    and rs: "rs = (v' # vs', h2, m2)"
    by (auto split: option.splits)
  from "5.IH"(1)[OF one "5.prems"(2) v] have
    v': "v' = rename m1 v" and cv: "covered m1 v" and iso1: "copy_iso h0 (h, memo) (h1, m1)"
    by simp_all
  from deepcopy_good(1)[OF one i0] have e1: "extends h h1" and inv1: "store_inv n0 (h1, m1)"
    by (simp_all add: good_def)
  have j1: "inj_on (snd (h1, m1)) (dom (snd (h1, m1)))"
    using copy_isoD3[OF iso1] by simp
  have e1': "extends (fst (h, memo)) (fst (h1, m1))" using e1 by simp
  have pre1: "copy_pre n0 h0 (h1, m1)"
    using "5.prems"(2) e1' inv1 j1 by (rule copy_pre_step)
  from "5.IH"(2)[OF one refl refl rest pre1 vs] have
    vs': "vs' = map (rename m2) vs" and cvs: "list_all (covered m2) vs"
    and iso2: "copy_iso h0 (h1, m1) (h2, m2)"
    by simp_all
  from deepcopy_good(2)[OF rest inv1] have le: "m1 \<subseteq>\<^sub>m m2" by (simp add: goods_def)
  have "copy_iso h0 (h, memo) (h2, m2)"
  proof (rule copy_iso_trans[OF iso1 iso2 _ le])
    show "length h \<le> length h1" using e1 by (simp add: extends_def)
  qed
  moreover have "v' = rename m2 v" using rename_stable[OF cv le] v' by simp
  moreover have "covered m2 v" using cv le by (rule covered_mono)
  ultimately show ?case using vs' cvs by (simp add: rs)
qed

section \<open>The claims\<close>

lemmas example_defs = example_collaborators_def example_entity_def example_members_def
  good_class_def faulty_class_def point_classtype_def ghost_classtype_def start_def init_def
  point_record_def norm_method_def kernel_method_def example_self_def

lemma good_run_outcome:
  "fst good_run = Returned
     ([''// ******* AUTOMATICALLY GENERATED BY PyKokkos *******'',
       ''struct Point;'', ''struct Point {};'', ''struct pk_functor_kernels {};''],
      [''// ******* AUTOMATICALLY GENERATED BY PyKokkos *******'',
       ''#include <pybind11/pybind11.h>'' @ [CHR 0x0A]
       @ ''#include <Kokkos_Core.hpp>'' @ [CHR 0x0A]
       @ ''#include <Kokkos_Sort.hpp>'' @ [CHR 0x0A]
       @ ''#include <fstream>'' @ [CHR 0x0A]
       @ ''#include <iostream>'' @ [CHR 0x0A]
       @ ''#include <cmath>'' @ [CHR 0x0A]
       @ ''#include <functor.hpp>'' @ [CHR 0x0A],
       ''square'', ''cube'', ''total''])"
  by code_simp




text \<open>
  C2. If the run visits a workunit whose translation raises, the whole of
  \<^verbatim>\<open>translate\<close> ends with \<^verbatim>\<open>sys.exit(1)\<close>: exit status 1, nothing returned (so
  no functor and no binding text). The failing visit is the last event of the
  run: the workunits before it in \<^verbatim>\<open>pk_workunits\<close> were visited, those after
  it were not, however many there are. One line naming the workunit is printed.
\<close>

theorem workunit_fault_is_fatal:
  assumes run: "translate C self0 entity classtypes w0 = (r, self, w)"
    and vis: "(n, wu) \<in> set (visited_workunits (new_events w0 w))"
    and bad: "workunit_visit C entity classtypes (parent w0) wu = Inl x"
  shows "r = SystemExit (Some 1) \<and> exit_status r = 1
     \<and> last (new_events w0 w) = VisitWorkunit n wu
     \<and> (\<exists>pre post. pk_workunits (compiled_members C entity classtypes (parent w0))
                        = pre @ (n, wu) # post
           \<and> visited_workunits (new_events w0 w) = pre @ [(n, wu)])
     \<and> stdout w = stdout w0 @ [''Translation of '' @ repr C wu @ '' failed'']"
proof -
  let ?wv = "\<lambda>x. workunit_visit C entity classtypes (parent w0) (snd x)"
  let ?ws = "pk_workunits (compiled_members C entity classtypes (parent w0))"
  have bad': "?wv (n, wu) = Inl x" using bad by simp
  from run show ?thesis
  proof (cases rule: translate_outcomes)
    case symbols
    with vis show ?thesis
      by (simp add: visited_workunits_append visited_workunits_calls)
  next
    case (classtype y)
    with vis show ?thesis
      by (simp add: visited_workunits_append visited_workunits_calls)
  next
    case (helper y)
    with vis show ?thesis
      by (simp add: visited_workunits_append visited_workunits_calls)
  next
    case (workunit y)
    have v: "visited_workunits (new_events w0 w) = attempted ?wv ?ws"
      using workunit by (simp add: visited_workunits_append visited_workunits_calls)
    with vis have mem: "(n, wu) \<in> set (attempted ?wv ?ws)" by simp
    from attempted_bad_last[OF mem bad'] have l: "last (attempted ?wv ?ws) = (n, wu)" by simp
    from attempted_split[OF workunit(4)] l obtain pre post where
      sp: "?ws = pre @ (n, wu) # post" "attempted ?wv ?ws = pre @ [(n, wu)]" by auto
    have "last (new_events w0 w) = VisitWorkunit n wu"
      using workunit(6) sp(2) by (simp add: workunit_event_def)
    moreover have "stdout w = stdout w0 @ [''Translation of '' @ repr C wu @ '' failed'']"
      using workunit(7) l by simp
    ultimately show ?thesis using workunit(5) sp v by auto
  next
    case finished
    have "visited_workunits (new_events w0 w) = attempted ?wv ?ws"
      using finished by (simp add: visited_workunits_append visited_workunits_calls)
    with vis have mem: "(n, wu) \<in> set (attempted ?wv ?ws)" by simp
    from attempted_bad_last[OF mem bad'] finished(4) show ?thesis by simp
  qed
qed

theorem workunit_fault_is_fatal_witness:
  "fst faulty_run = SystemExit (Some 1) \<and> exit_status (fst faulty_run) = 1
   \<and> last (trace (snd (snd faulty_run))) = VisitWorkunit ''cube'' (Node 2 [Node 7 []])
   \<and> visited_workunits (trace (snd (snd faulty_run)))
       = [(''square'', Node 1 []), (''cube'', Node 2 [Node 7 []])]
   \<and> stdout (snd (snd faulty_run)) = [''Translation of <ast.FunctionDef> failed'']"
proof -
  let ?C = example_collaborators and ?e = "example_entity faulty_class"
  have run: "translate ?C (init ''kernels'' ''functor.hpp'') ?e [point_classtype] start
      = (fst faulty_run, fst (snd faulty_run), snd (snd faulty_run))"
    by (simp add: faulty_run_def)
  have ev: "new_events start (snd (snd faulty_run)) = trace (snd (snd faulty_run))"
    by (simp add: new_events_def start_def)
  have vis: "(''cube'', Node 2 [Node 7 []])
      \<in> set (visited_workunits (new_events start (snd (snd faulty_run))))"
    unfolding ev by code_simp
  have bad: "workunit_visit ?C ?e [point_classtype] (parent start) (Node 2 [Node 7 []])
      = Inl (Exception ''unsupported construct'')"
    by (simp add: workunit_visit_def example_collaborators_def)
  have ws: "pk_workunits (compiled_members ?C ?e [point_classtype] (parent start))
      = [(''square'', Node 1 []), (''cube'', Node 2 [Node 7 []]), (''total'', Node 3 [])]"
    by (simp add: compiled_members_def example_defs)
  from workunit_fault_is_fatal[OF run vis bad] ev
  have a: "fst faulty_run = SystemExit (Some 1)" "exit_status (fst faulty_run) = 1"
    "last (trace (snd (snd faulty_run))) = VisitWorkunit ''cube'' (Node 2 [Node 7 []])"
    "stdout (snd (snd faulty_run)) = [''Translation of <ast.FunctionDef> failed'']"
    by (simp_all add: start_def example_collaborators_def)
  have "visited_workunits (trace (snd (snd faulty_run)))
       = [(''square'', Node 1 []), (''cube'', Node 2 [Node 7 []])]"
    by code_simp
  with a show ?thesis by simp
qed

text \<open>
  C3. The diagnostics of a compilation are those of every body: the mains, the
  workunits, the functions and the classtype trees, in this order (\<open>diagnostics\<close>
  over \<open>bodies\<close>). If there is at least one, \<^verbatim>\<open>translate\<close> has validated every
  body, printed every diagnostic and left through \<^verbatim>\<open>sys.exit()\<close>: nothing is
  returned and no visitor has been called.
\<close>

theorem symbol_errors_end_the_compilation:
  assumes "diagnostics C entity classtypes (parent w0) \<noteq> []"
  shows "translate C self0 entity classtypes w0 =
     (SystemExit None,
      self0\<lparr>pk_import := Some (entity_pk_import entity),
            pk_members := Some (compiled_members C entity classtypes (parent w0))\<rparr>,
      \<lparr>parent = linked_parents entity classtypes (parent w0),
       trace = trace w0 @ [Enter LinkParents, Enter ExtractMembers, Enter ValidateSymbols]
               @ map CheckSymbols (bodies (compiled_members C entity classtypes (parent w0))
                   classtypes),
       stdout = stdout w0 @ diagnostics C entity classtypes (parent w0)\<rparr>)"
  using assms by (simp add: translate_eq)

theorem symbol_errors_end_the_compilation_witness:
  "diagnostics example_collaborators (example_entity good_class)
      [point_classtype, ghost_classtype] (parent start) = [''ghost is not defined'']
   \<and> fst ghost_run = SystemExit None
   \<and> stdout (snd (snd ghost_run)) = [''ghost is not defined'']
   \<and> trace (snd (snd ghost_run)) =
       [Enter LinkParents, Enter ExtractMembers, Enter ValidateSymbols,
        CheckSymbols (Node 60 []), CheckSymbols (Node 1 []), CheckSymbols (Node 2 []),
        CheckSymbols (Node 3 []), CheckSymbols (Node 50 []),
        CheckSymbols (Node 20 [Node 21 []]), CheckSymbols (Node 99 [])]"
proof -
  have d: "diagnostics example_collaborators (example_entity good_class)
      [point_classtype, ghost_classtype] (parent start) = [''ghost is not defined'']"
    by (simp add: diagnostics_def bodies_def compiled_members_def example_defs)
  then have "diagnostics example_collaborators (example_entity good_class)
      [point_classtype, ghost_classtype] (parent start) \<noteq> []" by simp
  from symbol_errors_end_the_compilation[OF this, of "init ''kernels'' ''functor.hpp''"] d
  show ?thesis
    by (simp add: ghost_run_def bodies_def compiled_members_def example_defs)
qed

text \<open>
  C4. When \<^verbatim>\<open>translate\<close> returns, the functor text is: the header comment, the
  serialized forward declarations of all classtypes (each the visitor's result
  with \<^verbatim>\<open>is_definition\<close> set to False), then the serialized full definitions of all
  classtypes in the same order, then the serialized functor struct. Each
  classtype gives one fragment in each of the two blocks.
\<close>

theorem kernel_source_layout:
  assumes run: "translate C self0 entity classtypes w0 = (Returned (functor_text, bindings), self, w)"
  shows "\<exists>defs workunits functions.
     map Inr defs = map (classtype_visit C entity classtypes (parent w0)) classtypes
     \<and> functor_text =
         [''// ******* AUTOMATICALLY GENERATED BY PyKokkos *******'']
         @ map (serialize C) (map (set_is_definition False) defs)
         @ map (serialize C) defs
         @ [serialize C (generate_functor C (''pk_functor_'' @ name entity)
              (compiled_members C entity classtypes (parent w0)) workunits functions)]
     \<and> length functor_text = 2 * length classtypes + 2"
  using run
proof (cases rule: translate_outcomes)
  case finished
  let ?defs = "successes (classtype_visit C entity classtypes (parent w0)) classtypes"
  have m: "map Inr ?defs = map (classtype_visit C entity classtypes (parent w0)) classtypes"
    using finished(2) by (rule successes_all)
  have "length ?defs = length classtypes" using arg_cong[OF m, of length] by simp
  with finished(5) m show ?thesis
    by (intro exI[of _ ?defs] exI) (auto simp: generate_header_def)
qed simp_all

theorem kernel_source_layout_witness:
  "fst good_run = Returned
     ([''// ******* AUTOMATICALLY GENERATED BY PyKokkos *******'',
       ''struct Point;'', ''struct Point {};'', ''struct pk_functor_kernels {};''],
      [''// ******* AUTOMATICALLY GENERATED BY PyKokkos *******'',
       ''#include <pybind11/pybind11.h>'' @ [CHR 0x0A]
       @ ''#include <Kokkos_Core.hpp>'' @ [CHR 0x0A]
       @ ''#include <Kokkos_Sort.hpp>'' @ [CHR 0x0A]
       @ ''#include <fstream>'' @ [CHR 0x0A]
       @ ''#include <iostream>'' @ [CHR 0x0A]
       @ ''#include <cmath>'' @ [CHR 0x0A]
       @ ''#include <functor.hpp>'' @ [CHR 0x0A],
       ''square'', ''cube'', ''total''])
   \<and> (\<exists>defs workunits functions.
        map Inr defs = map (classtype_visit example_collaborators (example_entity good_class)
                              [point_classtype] (parent start)) [point_classtype]
        \<and> [''// ******* AUTOMATICALLY GENERATED BY PyKokkos *******'',
           ''struct Point;'', ''struct Point {};'', ''struct pk_functor_kernels {};''] =
          [''// ******* AUTOMATICALLY GENERATED BY PyKokkos *******'']
          @ map (serialize example_collaborators) (map (set_is_definition False) defs)
          @ map (serialize example_collaborators) defs
          @ [serialize example_collaborators
               (generate_functor example_collaborators
                  (''pk_functor_'' @ name (example_entity good_class))
                  (compiled_members example_collaborators (example_entity good_class)
                     [point_classtype] (parent start))
                  workunits functions)])"
proof -
  let ?F = "[''// ******* AUTOMATICALLY GENERATED BY PyKokkos *******'',
       ''struct Point;'', ''struct Point {};'', ''struct pk_functor_kernels {};'']"
  let ?B = "[''// ******* AUTOMATICALLY GENERATED BY PyKokkos *******'',
       ''#include <pybind11/pybind11.h>'' @ [CHR 0x0A]
       @ ''#include <Kokkos_Core.hpp>'' @ [CHR 0x0A]
       @ ''#include <Kokkos_Sort.hpp>'' @ [CHR 0x0A]
       @ ''#include <fstream>'' @ [CHR 0x0A]
       @ ''#include <iostream>'' @ [CHR 0x0A]
       @ ''#include <cmath>'' @ [CHR 0x0A]
       @ ''#include <functor.hpp>'' @ [CHR 0x0A],
       ''square'', ''cube'', ''total'']"
  have f: "fst good_run = Returned (?F, ?B)" by (rule good_run_outcome)
  have run: "translate example_collaborators (init ''kernels'' ''functor.hpp'')
       (example_entity good_class) [point_classtype] start
      = (Returned (?F, ?B), fst (snd good_run), snd (snd good_run))"
    using f by (metis good_run_def prod.collapse)
  from kernel_source_layout[OF run] f show ?thesis by blast
qed

text \<open>
  C5. When \<^verbatim>\<open>translate\<close> returns, the bindings text is: the header comment, one
  string of include lines (pybind11, Kokkos core, Kokkos sort, fstream, iostream,
  cmath and the functor file given to the constructor, in this order), then what
  \<^verbatim>\<open>generate_bindings\<close> returned.
\<close>

theorem binding_source_layout:
  assumes run: "translate C self0 entity classtypes w0 = (Returned (functor_text, bindings), self, w)"
  shows "\<exists>workunits frags.
     generate_bindings C self entity (''pk_functor_'' @ name entity) (source entity) workunits
       = Returned frags
     \<and> bindings =
         [''// ******* AUTOMATICALLY GENERATED BY PyKokkos *******'',
          ''#include <pybind11/pybind11.h>'' @ [CHR 0x0A]
          @ ''#include <Kokkos_Core.hpp>'' @ [CHR 0x0A]
          @ ''#include <Kokkos_Sort.hpp>'' @ [CHR 0x0A]
          @ ''#include <fstream>'' @ [CHR 0x0A]
          @ ''#include <iostream>'' @ [CHR 0x0A]
          @ ''#include <cmath>'' @ [CHR 0x0A]
          @ ''#include <'' @ functor_file self0 @ ''>'' @ [CHR 0x0A]]
         @ frags"
proof -
  have self: "self = self0\<lparr>pk_import := Some (entity_pk_import entity),
           pk_members := Some (compiled_members C entity classtypes (parent w0))\<rparr>"
    using translate_self[of C self0 entity classtypes w0] run by simp
  from run show ?thesis
  proof (cases rule: translate_outcomes)
    case finished
    let ?ws = "collect (workunit_visit C entity classtypes (parent w0))
                 (pk_workunits (compiled_members C entity classtypes (parent w0))) []"
    from finished(5) show ?thesis
      by (intro exI[of _ ?ws])
         (auto simp: generate_bindings_def self generate_header_def generate_includes_def
            include_headers_def)
  qed simp_all
qed

theorem binding_source_layout_witness:
  "\<exists>workunits frags.
     generate_bindings example_collaborators (fst (snd good_run)) (example_entity good_class)
       (''pk_functor_'' @ name (example_entity good_class))
       (source (example_entity good_class)) workunits = Returned frags
     \<and> [''// ******* AUTOMATICALLY GENERATED BY PyKokkos *******'',
        ''#include <pybind11/pybind11.h>'' @ [CHR 0x0A]
        @ ''#include <Kokkos_Core.hpp>'' @ [CHR 0x0A]
        @ ''#include <Kokkos_Sort.hpp>'' @ [CHR 0x0A]
        @ ''#include <fstream>'' @ [CHR 0x0A]
        @ ''#include <iostream>'' @ [CHR 0x0A]
        @ ''#include <cmath>'' @ [CHR 0x0A]
        @ ''#include <functor.hpp>'' @ [CHR 0x0A],
        ''square'', ''cube'', ''total''] =
       [''// ******* AUTOMATICALLY GENERATED BY PyKokkos *******'',
        ''#include <pybind11/pybind11.h>'' @ [CHR 0x0A]
        @ ''#include <Kokkos_Core.hpp>'' @ [CHR 0x0A]
        @ ''#include <Kokkos_Sort.hpp>'' @ [CHR 0x0A]
        @ ''#include <fstream>'' @ [CHR 0x0A]
        @ ''#include <iostream>'' @ [CHR 0x0A]
        @ ''#include <cmath>'' @ [CHR 0x0A]
        @ ''#include <'' @ functor_file (init ''kernels'' ''functor.hpp'') @ ''>'' @ [CHR 0x0A]]
       @ frags"
proof -
  let ?F = "[''// ******* AUTOMATICALLY GENERATED BY PyKokkos *******'',
       ''struct Point;'', ''struct Point {};'', ''struct pk_functor_kernels {};'']"
  let ?B = "[''// ******* AUTOMATICALLY GENERATED BY PyKokkos *******'',
       ''#include <pybind11/pybind11.h>'' @ [CHR 0x0A]
       @ ''#include <Kokkos_Core.hpp>'' @ [CHR 0x0A]
       @ ''#include <Kokkos_Sort.hpp>'' @ [CHR 0x0A]
       @ ''#include <fstream>'' @ [CHR 0x0A]
       @ ''#include <iostream>'' @ [CHR 0x0A]
       @ ''#include <cmath>'' @ [CHR 0x0A]
       @ ''#include <functor.hpp>'' @ [CHR 0x0A],
       ''square'', ''cube'', ''total'']"
  have f: "fst good_run = Returned (?F, ?B)" by (rule good_run_outcome)
  have run: "translate example_collaborators (init ''kernels'' ''functor.hpp'')
       (example_entity good_class) [point_classtype] start
      = (Returned (?F, ?B), fst (snd good_run), snd (snd good_run))"
    using f by (metis good_run_def prod.collapse)
  from binding_source_layout[OF run] show ?thesis .
qed



text \<open>
  C7 (amended). Running \<^verbatim>\<open>add_parent_refs\<close> a second time on the same tree
  changes nothing. After one run every child of every node of the tree has a
  parent reference, to a node of the tree that has it as a child: to the node
  that contains it when no other node has it as a child (so for every child of
  a tree in which no node object occurs twice), to one of its containers
  otherwise.
\<close>

theorem add_parent_refs_idempotent:
  "add_parent_refs t (add_parent_refs t p) = add_parent_refs t p
   \<and> (\<forall>n \<in> set (nodes_of t). \<forall>c \<in> set (child_nodes n).
         \<exists>n' \<in> set (nodes_of t). \<exists>c' \<in> set (child_nodes n').
           node_id c' = node_id c \<and> add_parent_refs t p (node_id c) = Some (node_id n'))
   \<and> (\<forall>n \<in> set (nodes_of t). \<forall>c \<in> set (child_nodes n).
        (\<forall>n' \<in> set (nodes_of t). \<forall>c' \<in> set (child_nodes n').
           node_id c' = node_id c \<longrightarrow> node_id n' = node_id n)
        \<longrightarrow> add_parent_refs t p (node_id c) = Some (node_id n))
   \<and> (distinct (map node_id (nodes_of t)) \<longrightarrow>
        (\<forall>n \<in> set (nodes_of t). \<forall>c \<in> set (child_nodes n).
           add_parent_refs t p (node_id c) = Some (node_id n)))"
proof (intro conjI)
  show "add_parent_refs t (add_parent_refs t p) = add_parent_refs t p"
    by (rule add_parent_refs_idem)
  show sh: "\<forall>n \<in> set (nodes_of t). \<forall>c \<in> set (child_nodes n).
         \<exists>n' \<in> set (nodes_of t). \<exists>c' \<in> set (child_nodes n').
           node_id c' = node_id c \<and> add_parent_refs t p (node_id c) = Some (node_id n')"
    using parent_of_shared_child by blast
  show "\<forall>n \<in> set (nodes_of t). \<forall>c \<in> set (child_nodes n).
        (\<forall>n' \<in> set (nodes_of t). \<forall>c' \<in> set (child_nodes n').
           node_id c' = node_id c \<longrightarrow> node_id n' = node_id n)
        \<longrightarrow> add_parent_refs t p (node_id c) = Some (node_id n)"
  proof (intro ballI impI)
    fix n c
    assume n: "n \<in> set (nodes_of t)" and c: "c \<in> set (child_nodes n)"
      and u: "\<forall>n' \<in> set (nodes_of t). \<forall>c' \<in> set (child_nodes n').
           node_id c' = node_id c \<longrightarrow> node_id n' = node_id n"
    from sh n c obtain n' c' where n': "n' \<in> set (nodes_of t)" and c': "c' \<in> set (child_nodes n')"
      and e: "node_id c' = node_id c" and pr: "add_parent_refs t p (node_id c) = Some (node_id n')"
      by blast
    from u n' c' e have "node_id n' = node_id n" by blast
    with pr show "add_parent_refs t p (node_id c) = Some (node_id n)" by simp
  qed
  show "distinct (map node_id (nodes_of t)) \<longrightarrow>
        (\<forall>n \<in> set (nodes_of t). \<forall>c \<in> set (child_nodes n).
           add_parent_refs t p (node_id c) = Some (node_id n))"
    using parent_of_child by blast
qed

theorem add_parent_refs_idempotent_witness:
  "add_parent_refs faulty_class (add_parent_refs faulty_class Map.empty)
     = add_parent_refs faulty_class Map.empty
   \<and> distinct (map node_id (nodes_of faulty_class))
   \<and> add_parent_refs faulty_class Map.empty 1 = Some 0
   \<and> add_parent_refs faulty_class Map.empty 2 = Some 0
   \<and> add_parent_refs faulty_class Map.empty 3 = Some 0
   \<and> add_parent_refs faulty_class Map.empty 7 = Some 2
   \<and> add_parent_refs shared_tree (add_parent_refs shared_tree Map.empty)
     = add_parent_refs shared_tree Map.empty
   \<and> add_parent_refs shared_tree Map.empty 1 = Some 0
   \<and> add_parent_refs shared_tree Map.empty 2 = Some 0"
proof -
  have d: "distinct (map node_id (nodes_of faulty_class))"
    by (simp add: faulty_class_def)
  have n: "nodes_of faulty_class
      = [faulty_class, Node 1 [], Node 2 [Node 7 []], Node 7 [], Node 3 []]"
    by (simp add: faulty_class_def)
  from add_parent_refs_idempotent[of faulty_class Map.empty] d
  have i: "add_parent_refs faulty_class (add_parent_refs faulty_class Map.empty)
      = add_parent_refs faulty_class Map.empty"
    and p: "\<forall>n \<in> set (nodes_of faulty_class). \<forall>c \<in> set (child_nodes n).
           add_parent_refs faulty_class Map.empty (node_id c) = Some (node_id n)"
    by blast+
  have ns: "nodes_of shared_tree
      = [shared_tree, Node 1 [Node 9 []], Node 9 [], Node 2 [Node 9 []], Node 9 []]"
    by (simp add: shared_tree_def)
  from add_parent_refs_idempotent[of shared_tree Map.empty]
  have si: "add_parent_refs shared_tree (add_parent_refs shared_tree Map.empty)
      = add_parent_refs shared_tree Map.empty"
    and sp: "\<forall>n \<in> set (nodes_of shared_tree). \<forall>c \<in> set (child_nodes n).
        (\<forall>n' \<in> set (nodes_of shared_tree). \<forall>c' \<in> set (child_nodes n').
           node_id c' = node_id c \<longrightarrow> node_id n' = node_id n)
        \<longrightarrow> add_parent_refs shared_tree Map.empty (node_id c) = Some (node_id n)"
    by blast+
  have s12: "add_parent_refs shared_tree Map.empty 1 = Some 0
      \<and> add_parent_refs shared_tree Map.empty 2 = Some 0"
    using sp unfolding ns by (simp add: shared_tree_def)
  from p have "add_parent_refs faulty_class Map.empty 1 = Some 0
   \<and> add_parent_refs faulty_class Map.empty 2 = Some 0
   \<and> add_parent_refs faulty_class Map.empty 3 = Some 0
   \<and> add_parent_refs faulty_class Map.empty 7 = Some 2"
    unfolding n by (simp add: faulty_class_def)
  with i d si s12 show ?thesis by simp
qed

text \<open>
  C7 as stated fails: a node object that is a child of two nodes carries one
  parent reference, so after the run it does not refer to the first of the
  nodes that contain it.
\<close>

theorem shared_child_has_one_parent:
  "Node 1 [Node 9 []] \<in> set (nodes_of shared_tree)
   \<and> Node 9 [] \<in> set (child_nodes (Node 1 [Node 9 []]))
   \<and> add_parent_refs shared_tree Map.empty (node_id (Node 9 []))
       \<noteq> Some (node_id (Node 1 [Node 9 []]))
   \<and> add_parent_refs shared_tree Map.empty 9 = Some 2"
  by (simp add: shared_tree_def add_parent_refs_def set_parents_def walk.simps)

text \<open>
  C8. In one call of \<^verbatim>\<open>translate\<close> the nodes given to the symbol validator are,
  in order, the values of \<^verbatim>\<open>pk_mains\<close>, of \<^verbatim>\<open>pk_workunits\<close>, of
  \<^verbatim>\<open>pk_functions\<close> and the trees of the classtypes: one call for each entry and
  no other call, whatever the outcome of the run. What the validator answers
  for these nodes decides the run: it exits from validation exactly when one
  answer holds a diagnostic, and then it has printed the answers for these
  nodes, each once, in this order.
\<close>

theorem validator_runs_once_per_body:
  assumes run: "translate C self0 entity classtypes w0 = (r, self, w)"
  shows "\<exists>m imp. pk_members self = Some m \<and> pk_import self = Some imp
     \<and> checked_nodes (new_events w0 w) =
         map snd (pk_mains m) @ map snd (pk_workunits m) @ map snd (pk_functions m)
         @ map AST classtypes
     \<and> (r = SystemExit None) =
         (concat (map (symbols_pass C m imp (path entity) (parent w))
                    (checked_nodes (new_events w0 w))) \<noteq> [])
     \<and> (r = SystemExit None \<longrightarrow>
          stdout w = stdout w0
            @ concat (map (symbols_pass C m imp (path entity) (parent w))
                        (checked_nodes (new_events w0 w))))"
proof -
  let ?m = "compiled_members C entity classtypes (parent w0)"
  have self: "self = self0\<lparr>pk_import := Some (entity_pk_import entity),
           pk_members := Some ?m\<rparr>"
    using translate_self[of C self0 entity classtypes w0] run by simp
  have par: "parent w = linked_parents entity classtypes (parent w0)"
    using translate_parent[of C self0 entity classtypes w0] run by simp
  have ch: "checked_nodes (new_events w0 w) = bodies ?m classtypes"
    using run
    by (cases rule: translate_outcomes)
       (simp_all add: checked_nodes_append checked_nodes_calls)
  have dg: "concat (map (symbols_pass C ?m (entity_pk_import entity) (path entity) (parent w))
                    (checked_nodes (new_events w0 w))) = diagnostics C entity classtypes (parent w0)"
    by (simp add: ch par diagnostics_def)
  have ex: "(r = SystemExit None) = (diagnostics C entity classtypes (parent w0) \<noteq> [])"
    using run by (cases rule: translate_outcomes) simp_all
  have pr: "r = SystemExit None \<Longrightarrow>
      stdout w = stdout w0 @ diagnostics C entity classtypes (parent w0)"
    using run by (cases rule: translate_outcomes) simp_all
  show ?thesis
  proof (intro exI conjI impI)
    show "pk_members self = Some ?m" by (simp add: self)
    show "pk_import self = Some (entity_pk_import entity)" by (simp add: self)
    show "checked_nodes (new_events w0 w) =
         map snd (pk_mains ?m) @ map snd (pk_workunits ?m) @ map snd (pk_functions ?m)
         @ map AST classtypes"
      using ch by (simp add: bodies_def)
    show "(r = SystemExit None) =
         (concat (map (symbols_pass C ?m (entity_pk_import entity) (path entity) (parent w))
                    (checked_nodes (new_events w0 w))) \<noteq> [])"
      unfolding dg by (rule ex)
    assume "r = SystemExit None"
    then show "stdout w = stdout w0
            @ concat (map (symbols_pass C ?m (entity_pk_import entity) (path entity) (parent w))
                        (checked_nodes (new_events w0 w)))"
      unfolding dg by (rule pr)
  qed
qed

theorem validator_runs_once_per_body_witness:
  "fst reported_run = SystemExit None
   \<and> checked_nodes (trace (snd (snd reported_run))) =
       [Node 60 [], Node 1 [], Node 2 [], Node 3 [], Node 50 [], Node 20 [Node 21 []]]
   \<and> stdout (snd (snd reported_run)) =
       [''unresolved name in node 60'', ''unresolved name in node 01'',
        ''unresolved name in node 02'', ''unresolved name in node 03'',
        ''unresolved name in node 50'', ''unresolved name in node 20'']
   \<and> fst good_run \<noteq> SystemExit None
   \<and> checked_nodes (trace (snd (snd good_run))) =
       [Node 60 [], Node 1 [], Node 2 [], Node 3 [], Node 50 [], Node 20 [Node 21 []]]"
proof -
  have run: "translate reporting_collaborators (init ''kernels'' ''functor.hpp'')
       (example_entity good_class) [point_classtype] start
      = (fst reported_run, fst (snd reported_run), snd (snd reported_run))"
    by (simp add: reported_run_def)
  have ev: "new_events start (snd (snd reported_run)) = trace (snd (snd reported_run))"
    by (simp add: new_events_def start_def)
  have m: "pk_members (fst (snd reported_run)) = Some (example_members (example_entity good_class))"
    by (simp add: reported_run_def translate_self compiled_members_def
        reporting_collaborators_def example_collaborators_def)
  have i: "pk_import (fst (snd reported_run)) = Some ''pk''"
    by (simp add: reported_run_def translate_self example_entity_def)
  have s0: "stdout start = []" by (simp add: start_def)
  have sp: "symbols_pass reporting_collaborators = (\<lambda>m imp pth p a.
      [''unresolved name in node '' @ two_digits (node_id a)])"
    by (simp add: reporting_collaborators_def)
  have grun: "translate example_collaborators (init ''kernels'' ''functor.hpp'')
       (example_entity good_class) [point_classtype] start
      = (fst good_run, fst (snd good_run), snd (snd good_run))"
    by (simp add: good_run_def)
  have gev: "new_events start (snd (snd good_run)) = trace (snd (snd good_run))"
    by (simp add: new_events_def start_def)
  have gm: "pk_members (fst (snd good_run)) = Some (example_members (example_entity good_class))"
    by (simp add: good_run_def translate_self compiled_members_def example_collaborators_def)
  have gi: "pk_import (fst (snd good_run)) = Some ''pk''"
    by (simp add: good_run_def translate_self example_entity_def)
  have gsp: "symbols_pass example_collaborators = (\<lambda>m imp pth p a.
      if node_id a = 99 then [''ghost is not defined''] else [])"
    by (simp add: example_collaborators_def)
  have a: "fst reported_run = SystemExit None
   \<and> checked_nodes (trace (snd (snd reported_run))) =
       [Node 60 [], Node 1 [], Node 2 [], Node 3 [], Node 50 [], Node 20 [Node 21 []]]
   \<and> stdout (snd (snd reported_run)) =
       [''unresolved name in node 60'', ''unresolved name in node 01'',
        ''unresolved name in node 02'', ''unresolved name in node 03'',
        ''unresolved name in node 50'', ''unresolved name in node 20'']"
    using validator_runs_once_per_body[OF run] m i ev s0
    by (auto simp: sp two_digits_def example_members_def example_entity_def good_class_def
        point_classtype_def)
  have b: "fst good_run \<noteq> SystemExit None
   \<and> checked_nodes (trace (snd (snd good_run))) =
       [Node 60 [], Node 1 [], Node 2 [], Node 3 [], Node 50 [], Node 20 [Node 21 []]]"
    using validator_runs_once_per_body[OF grun] gm gi gev
    by (auto simp: gsp example_members_def example_entity_def good_class_def
        point_classtype_def)
  from a b show ?thesis by simp
qed

text \<open>
  C9. \<^verbatim>\<open>check_symbols\<close> with a diagnostic leaves through \<^verbatim>\<open>sys.exit()\<close>, which
  is exit status 0; \<^verbatim>\<open>translate_workunits\<close> with a workunit whose visit raises
  leaves through \<^verbatim>\<open>sys.exit(1)\<close>, which is exit status 1.
\<close>

theorem exit_statuses_of_the_two_failures:
  assumes "pk_members self = Some m" and "pk_import self = Some imp"
  shows "(concat (map (symbols_pass C m imp pth (parent w)) (bodies m classtypes)) \<noteq> []
          \<longrightarrow> fst (check_symbols C self classtypes pth w) = SystemExit None
            \<and> exit_status (fst (check_symbols C self classtypes pth w)) = 0)
     \<and> ((n, wu) \<in> set (pk_workunits m)
          \<and> workunit_visitor C (make_visitor_args m imp src) (parent w) wu = Inl x
          \<longrightarrow> fst (translate_workunits C self src w) = SystemExit (Some 1)
            \<and> exit_status (fst (translate_workunits C self src w)) = 1)"
proof (intro conjI impI)
  assume "concat (map (symbols_pass C m imp pth (parent w)) (bodies m classtypes)) \<noteq> []"
  then show "fst (check_symbols C self classtypes pth w) = SystemExit None"
    by (simp add: check_symbols_eq[OF assms])
  then show "exit_status (fst (check_symbols C self classtypes pth w)) = 0" by simp
next
  assume a: "(n, wu) \<in> set (pk_workunits m)
     \<and> workunit_visitor C (make_visitor_args m imp src) (parent w) wu = Inl x"
  let ?f = "\<lambda>x. workunit_visitor C (make_visitor_args m imp src) (parent w) (snd x)"
  have "first_error ?f (pk_workunits m) \<noteq> None"
    using a first_error_mem[of "(n, wu)" "pk_workunits m" ?f x] by simp
  then show "fst (translate_workunits C self src w) = SystemExit (Some 1)"
    using assms by (auto simp: translate_workunits_def workunits_loop_eq)
  then show "exit_status (fst (translate_workunits C self src w)) = 1" by simp
qed

theorem exit_statuses_of_the_two_failures_witness:
  "fst (check_symbols example_collaborators (example_self good_class) [ghost_classtype]
          ''kernels.py'' start) = SystemExit None
   \<and> exit_status (fst (check_symbols example_collaborators (example_self good_class)
          [ghost_classtype] ''kernels.py'' start)) = 0
   \<and> fst (translate_workunits example_collaborators (example_self faulty_class) ([], 1) start)
       = SystemExit (Some 1)
   \<and> exit_status (fst (translate_workunits example_collaborators (example_self faulty_class)
          ([], 1) start)) = 1"
proof -
  have a: "pk_members (example_self c) = Some (example_members (example_entity c))"
    and b: "pk_import (example_self c) = Some ''pk''" for c
    by (simp_all add: example_self_def)
  have d: "concat (map (symbols_pass example_collaborators (example_members (example_entity good_class))
        ''pk'' ''kernels.py'' (parent start))
        (bodies (example_members (example_entity good_class)) [ghost_classtype])) \<noteq> []"
    by (simp add: bodies_def example_defs)
  have w: "(''cube'', Node 2 [Node 7 []])
       \<in> set (pk_workunits (example_members (example_entity faulty_class)))
     \<and> workunit_visitor example_collaborators
         (make_visitor_args (example_members (example_entity faulty_class)) ''pk'' ([], 1))
         (parent start) (Node 2 [Node 7 []]) = Inl (Exception ''unsupported construct'')"
    by (simp add: example_defs)
  from exit_statuses_of_the_two_failures[OF a[of good_class] b[of good_class],
      where C = example_collaborators and pth = "''kernels.py''" and w = start
        and classtypes = "[ghost_classtype]"] d
  have 1: "fst (check_symbols example_collaborators (example_self good_class) [ghost_classtype]
          ''kernels.py'' start) = SystemExit None
   \<and> exit_status (fst (check_symbols example_collaborators (example_self good_class)
          [ghost_classtype] ''kernels.py'' start)) = 0" by blast
  from exit_statuses_of_the_two_failures[OF a[of faulty_class] b[of faulty_class],
      where C = example_collaborators and src = "([], 1)" and w = start
        and n = "''cube''" and wu = "Node 2 [Node 7 []]"
        and x = "Exception ''unsupported construct''"] w
  have 2: "fst (translate_workunits example_collaborators (example_self faulty_class) ([], 1) start)
       = SystemExit (Some 1)
   \<and> exit_status (fst (translate_workunits example_collaborators (example_self faulty_class)
          ([], 1) start)) = 1" by blast
  from 1 2 show ?thesis by simp
qed

text \<open>
  C10. On the object store, with the definition in a closed store: the
  declaration that \<^verbatim>\<open>copy.deepcopy\<close> returns is a new object, and every node
  found from it is new, so no node is found from both the definition and the
  declaration. The copy and the assignment \<^verbatim>\<open>declaration.is_definition = False\<close>
  leave every object that existed before as it was: the definition's
  \<^verbatim>\<open>is_definition\<close> and all its members are unchanged, while the declaration's
  flag is False. With a recursion depth above the number of objects the two
  statements do return.
\<close>

theorem declaration_and_definition_share_nothing:
  assumes closed: "closed h"
  shows "(definition < length h \<and> is_instance (h ! definition) \<and> length h < fuel
            \<longrightarrow> make_declaration fuel h definition \<noteq> None)
     \<and> (\<forall>declaration h'. make_declaration fuel h definition = Some (declaration, h') \<longrightarrow>
           length h \<le> declaration \<and> declaration < length h'
           \<and> (\<forall>a < length h. h' ! a = h ! a)
           \<and> getattr h' definition ''is_definition'' = getattr h definition ''is_definition''
           \<and> getattr h' declaration ''is_definition'' = Some (Atom (ABool False))
           \<and> (\<forall>a. reach h' definition a \<longrightarrow> a < length h \<and> reach h definition a)
           \<and> (\<forall>a. reach h' declaration a \<longrightarrow> length h \<le> a)
           \<and> (\<forall>a. reach h' definition a \<longrightarrow> \<not> reach h' declaration a))"
proof (intro conjI impI allI)
  assume a: "definition < length h \<and> is_instance (h ! definition) \<and> length h < fuel"
  then obtain c as where "h ! definition = Instance c as"
    by (cases "h ! definition") auto
  from make_declaration_total[OF closed _ this] a
  show "make_declaration fuel h definition \<noteq> None" by auto
qed (use make_declaration_frame[OF _ closed] in blast)+

theorem declaration_and_definition_share_nothing_witness:
  "closed example_heap \<and> is_instance (example_heap ! 0)
   \<and> make_declaration 5 example_heap 0 = Some (4, example_copy)
   \<and> example_copy ! 0 = example_heap ! 0 \<and> example_copy ! 1 = example_heap ! 1
   \<and> example_copy ! 2 = example_heap ! 2 \<and> example_copy ! 3 = example_heap ! 3
   \<and> getattr example_copy 0 ''is_definition'' = Some (Atom (ABool True))
   \<and> getattr example_copy 4 ''is_definition'' = Some (Atom (ABool False))
   \<and> reach example_copy 0 2 \<and> \<not> reach example_copy 4 2"
proof -
  have c: "closed example_heap" by (simp add: closed_def example_heap_def)
  have r: "make_declaration 5 example_heap 0 = Some (4, example_copy)" by code_simp
  have l: "length example_heap = 4" by (simp add: example_heap_def)
  have g: "getattr example_heap 0 ''is_definition'' = Some (Atom (ABool True))"
    by (simp add: example_heap_def)
  have "reach example_copy 0 1"
    by (rule reach_step[OF reach_self, of 0]) (simp_all add: example_copy_def)
  then have r2: "reach example_copy 0 2"
    by (rule reach_step) (simp_all add: example_copy_def)
  from declaration_and_definition_share_nothing[OF c, of 0 5] r l
  have f: "\<forall>a < 4. example_copy ! a = example_heap ! a"
    and "getattr example_copy 0 ''is_definition'' = getattr example_heap 0 ''is_definition''"
    and "getattr example_copy 4 ''is_definition'' = Some (Atom (ABool False))"
    and n: "\<forall>a. reach example_copy 0 a \<longrightarrow> \<not> reach example_copy 4 a"
    by (simp_all del: getattr.simps)
  moreover from n r2 have "\<not> reach example_copy 4 2" by blast
  moreover from f have "example_copy ! 0 = example_heap ! 0" "example_copy ! 1 = example_heap ! 1"
    "example_copy ! 2 = example_heap ! 2" "example_copy ! 3 = example_heap ! 3" by simp_all
  ultimately show ?thesis using c r g r2
    by (simp add: example_heap_def del: getattr.simps)
qed

text \<open>
  The amended C1 seen on the object store, where the copy is made by
  \<^verbatim>\<open>deepcopy\<close> itself. The declaration is a copy of the definition: there is
  a one-to-one map from the nodes of the definition to new objects that takes
  the definition to the
  declaration; each new object is its original with every reference replaced
  by the reference to the copy, and the declaration differs from such a copy of
  the definition only in \<^verbatim>\<open>is_definition\<close>.
\<close>

theorem declaration_is_a_copy:
  assumes run: "make_declaration fuel h definition = Some (declaration, h')"
    and closed: "closed h"
  shows "\<exists>f. f definition = Some declaration \<and> inj_on f (dom f)
     \<and> h' ! declaration
         = with_attr ''is_definition'' (Atom (ABool False)) (renamed f (h ! definition))
     \<and> (\<forall>a b. f a = Some b \<longrightarrow>
           length h \<le> b \<and> list_all (covered f) (slots (h ! a))
           \<and> (a \<noteq> definition \<longrightarrow> h' ! b = renamed f (h ! a)))"
proof -
  let ?n = "length h"
  from run obtain h1 m where
    cp: "deepcopy fuel (Ref definition) (h, Map.empty) = Some (Ref declaration, h1, m)"
    and st: "setattr h1 declaration ''is_definition'' (Atom (ABool False)) = Some h'"
    by (auto simp: make_declaration_def split: option.splits val.splits)
  have d: "definition < ?n" using cp by (rule deepcopy_ref_valid)
  have i: "store_inv ?n (h, Map.empty)" by (auto simp: store_inv_def memo_ok_def fresh_region_def)
  have p: "copy_pre ?n h (h, Map.empty)"
    using i closed_originals[OF closed] by (simp add: copy_pre_def)
  from deepcopy_iso(1)[OF cp p] d have
    rn: "Ref declaration = rename m (Ref definition)" and cv: "covered m (Ref definition)"
    and iso: "copy_iso h (h, Map.empty) (h1, m)"
    by simp_all
  from deepcopy_good(1)[OF cp i] have d1: "declaration < length h1"
    by (simp add: good_def)
  have md: "m definition = Some declaration"
    using rn cv by (auto split: option.splits)
  have inj: "inj_on m (dom m)" using iso by (rule copy_isoD3)
  have cop: "copied h h1 m a" for a
    by (rule copy_isoD1[OF iso]) (simp add: copied_def)
  have fresh: "?n \<le> b" if "m a = Some b" for a b
    using copy_isoD2[OF iso that] by simp
  from st d1 have h': "h' = h1[declaration := with_attr ''is_definition'' (Atom (ABool False))
      (h1 ! declaration)]" and "is_instance (h1 ! declaration)"
    by (auto split: obj.splits if_splits)
  have root: "h1 ! declaration = renamed m (h ! definition)"
    using cop[of "definition"] md by (simp add: copied_def renamed_def)
  have "h' ! declaration
      = with_attr ''is_definition'' (Atom (ABool False)) (renamed m (h ! definition))"
    using d1 root by (simp add: h')
  moreover have "?n \<le> b \<and> list_all (covered m) (slots (h ! a))
       \<and> (a \<noteq> definition \<longrightarrow> h' ! b = renamed m (h ! a))" if ab: "m a = Some b" for a b
  proof -
    from cop[of a] ab have c: "list_all (covered m) (slots (h ! a))"
      and e: "h1 ! b = renamed m (h ! a)"
      by (simp_all add: copied_def renamed_def)
    have "b \<noteq> declaration" if "a \<noteq> definition"
    proof
      assume "b = declaration"
      with ab md have "m a = m definition" by simp
      with inj ab md have "a = definition" by (auto simp: inj_on_def dom_def)
      with that show False by simp
    qed
    then show ?thesis using fresh[OF ab] c e by (auto simp: h')
  qed
  ultimately show ?thesis using md inj by blast
qed

theorem declaration_is_a_copy_witness:
  "\<exists>f. f 0 = Some 4 \<and> inj_on f (dom f)
     \<and> example_copy ! 4
         = with_attr ''is_definition'' (Atom (ABool False)) (renamed f (example_heap ! 0))
     \<and> (\<forall>a b. f a = Some b \<longrightarrow>
           length example_heap \<le> b \<and> list_all (covered f) (slots (example_heap ! a))
           \<and> (a \<noteq> 0 \<longrightarrow> example_copy ! b = renamed f (example_heap ! a)))"
proof -
  have c: "closed example_heap" by (simp add: closed_def example_heap_def)
  have r: "make_declaration 5 example_heap 0 = Some (4, example_copy)" by code_simp
  from declaration_is_a_copy[OF r c] show ?thesis .
qed

end
